theory Spec2Isabelle
  imports Complex_Main
begin

section \<open>fpb: the stream interpreter of the FFmpeg progress wrapper\<close>

text \<open>
  The development follows the Go program \<^verbatim>\<open>fpb\<close>. Two revisions of the one source
  file are present: the plain one (\<^verbatim>\<open>src/fpb.go\<close>) and the documented one, which adds
  to the notifier the fields \<^verbatim>\<open>stdinWriter\<close>, \<^verbatim>\<open>stderrBuffer\<close> and
  \<^verbatim>\<open>waitingForInput\<close>, the method \<^verbatim>\<open>forwardUserInput\<close> and the replay of the
  buffered diagnostics in \<^verbatim>\<open>main\<close>. Every other function is the same text in both.
  The model is the documented revision; the few places where the plain one differs are
  pointed out where they occur.

  Go strings are byte sequences: they are \<^typ>\<open>string\<close> here, one \<^typ>\<open>char\<close> per
  byte. Go's \<^verbatim>\<open>int\<close> is 64 bits wide; the largest number the interpreter computes is
  a clock reading of \<^verbatim>\<open>99:99:99\<close> times a two-digit frame rate, far below the
  range's end, so \<^typ>\<open>int\<close> stands for it.
\<close>

subsection \<open>Bytes and library functions\<close>

definition CR :: char where "CR = CHR 0x0D"
definition LF :: char where "LF = CHR 0x0A"
definition ESC :: char where "ESC = CHR 0x1B"
definition APOS :: char where "APOS = CHR 0x27"

text \<open>\<^verbatim>\<open>strings.HasPrefix\<close> and \<^verbatim>\<open>strings.HasSuffix\<close>, as the library writes them.\<close>

definition HasPrefix :: "string \<Rightarrow> string \<Rightarrow> bool" where
  "HasPrefix s p = (length p \<le> length s \<and> take (length p) s = p)"

definition HasSuffix :: "string \<Rightarrow> string \<Rightarrow> bool" where
  "HasSuffix s suf = (length suf \<le> length s \<and> drop (length s - length suf) s = suf)"

definition isDigit :: "char \<Rightarrow> bool" where
  "isDigit c = (48 \<le> (of_char c :: nat) \<and> (of_char c :: nat) \<le> 57)"

definition digitVal :: "char \<Rightarrow> int" where
  "digitVal c = int (of_char c) - 48"

definition decimal :: "string \<Rightarrow> int" where
  "decimal ds = foldl (\<lambda>a c. 10 * a + digitVal c) 0 ds"

text \<open>
  \<^verbatim>\<open>strconv.Atoi\<close>: an optional sign and decimal digits; anything else is an error.
  The callers pass two-digit captures only, so the range error of the library (a number
  that does not fit 64 bits) has no branch here.
\<close>

definition Atoi :: "string \<Rightarrow> int option" where
  "Atoi s =
     (let body = (if s \<noteq> [] \<and> (hd s = CHR ''+'' \<or> hd s = CHR ''-'') then tl s else s)
      in if body = [] \<or> \<not> list_all isDigit body then None
         else if hd s = CHR ''-'' then Some (- decimal body)
         else Some (decimal body))"

text \<open>
  \<^verbatim>\<open>strconv.ParseFloat(s, 64)\<close> on plain decimals \<^verbatim>\<open>d+\<close> and \<^verbatim>\<open>d+.d+\<close>, the two
  shapes the frame-rate pattern captures. The value is the exact rational: the nearest
  double of a number with two integer and two fraction digits lies between the same two
  integers, so the truncation \<^verbatim>\<open>int(fps)\<close> that follows is the same on both.
  Other spellings the library accepts (exponents, hex, infinities) are \<open>None\<close> here.
\<close>

definition ParseFloat :: "string \<Rightarrow> rat option" where
  "ParseFloat s =
     (let ip = takeWhile isDigit s; r = dropWhile isDigit s
      in if ip = [] then None
         else if r = [] then Some (of_int (decimal ip))
         else if hd r = CHR ''.'' \<and> tl r \<noteq> [] \<and> list_all isDigit (tl r)
           then Some (of_int (decimal (ip @ tl r)) / 10 ^ length (tl r))
         else None)"

text \<open>The conversion \<^verbatim>\<open>int(x)\<close> of a float: truncation toward zero.\<close>

definition toInt :: "rat \<Rightarrow> int" where
  "toInt q = (if 0 \<le> q then \<lfloor>q\<rfloor> else - \<lfloor>- q\<rfloor>)"

text \<open>
  \<^verbatim>\<open>filepath.Base\<close> with \<^verbatim>\<open>/\<close> as the separator and no volume names: trailing
  separators are dropped, then everything through the last separator; the empty path
  is \<^verbatim>\<open>.\<close> and a path of separators only is \<^verbatim>\<open>/\<close>.
\<close>

definition stripTrailingSlashes :: "string \<Rightarrow> string" where
  "stripTrailingSlashes p = rev (dropWhile (\<lambda>c. c = CHR ''/'') (rev p))"

definition lastElement :: "string \<Rightarrow> string" where
  "lastElement p = rev (takeWhile (\<lambda>c. c \<noteq> CHR ''/'') (rev p))"

definition Base :: "string \<Rightarrow> string" where
  "Base path =
     (if path = [] then ''.''
      else let p = lastElement (stripTrailingSlashes path)
           in if p = [] then ''/'' else p)"

subsection \<open>The four patterns\<close>

text \<open>
  Each pattern is a function from the line to the result of
  \<^verbatim>\<open>FindStringSubmatch\<close>: the whole match followed by the captured groups, or the
  empty list (Go's \<^verbatim>\<open>nil\<close>) when the line has no match. The search is leftmost-first:
  the start positions are tried from the left, and at one position the alternatives in
  their written order. Every literal byte of the patterns is ASCII, so matching bytes
  and matching UTF-8 runes agree.
\<close>

definition digit2 :: "string \<Rightarrow> bool" where
  "digit2 s = (case s of a # b # _ \<Rightarrow> isDigit a \<and> isDigit b | _ \<Rightarrow> False)"

text \<open>\<^verbatim>\<open>(\d{2}):(\d{2}):(\d{2})\.\d{2}\<close> at the front of the text.\<close>

definition clockAt :: "string \<Rightarrow> string list option" where
  "clockAt s =
     (if 11 \<le> length s \<and> digit2 s \<and> s ! 2 = CHR '':'' \<and> digit2 (drop 3 s)
         \<and> s ! 5 = CHR '':'' \<and> digit2 (drop 6 s) \<and> s ! 8 = CHR ''.'' \<and> digit2 (drop 9 s)
      then Some [take 2 s, take 2 (drop 3 s), take 2 (drop 6 s)]
      else None)"

fun labelledClock :: "string \<Rightarrow> string \<Rightarrow> string list" where
  "labelledClock label [] = []"
| "labelledClock label (c # cs) =
     (if HasPrefix (c # cs) label then
        (case clockAt (drop (length label) (c # cs)) of
           Some groups \<Rightarrow> (label @ take 11 (drop (length label) (c # cs))) # groups
         | None \<Rightarrow> labelledClock label cs)
      else labelledClock label cs)"

text \<open>\<^verbatim>\<open>Duration: (\d{2}):(\d{2}):(\d{2})\.\d{2}\<close>\<close>

definition durationRx :: "string \<Rightarrow> string list" where
  "durationRx line = labelledClock ''Duration: '' line"

text \<open>\<^verbatim>\<open>time=(\d{2}):(\d{2}):(\d{2})\.\d{2}\<close>\<close>

definition progressRx :: "string \<Rightarrow> string list" where
  "progressRx line = labelledClock ''time='' line"

text \<open>
  \<^verbatim>\<open>(.*)':\<close> at the front of the text: the dot takes no line feed and the star is
  greedy, so the capture ends at the last \<^verbatim>\<open>':\<close> before the first line feed.
\<close>

fun greedyQuoteColon :: "string \<Rightarrow> string option" where
  "greedyQuoteColon [] = None"
| "greedyQuoteColon (c # cs) =
     (case greedyQuoteColon cs of
        Some g \<Rightarrow> Some (c # g)
      | None \<Rightarrow> if c = APOS \<and> cs \<noteq> [] \<and> hd cs = CHR '':'' then Some [] else None)"

definition fromQuote :: string where
  "fromQuote = ''from '' @ [APOS]"

text \<open>\<^verbatim>\<open>from '(.*)':\<close>\<close>

fun sourceRx :: "string \<Rightarrow> string list" where
  "sourceRx [] = []"
| "sourceRx (c # cs) =
     (if HasPrefix (c # cs) fromQuote then
        (case greedyQuoteColon (takeWhile (\<lambda>x. x \<noteq> LF) (drop 6 (c # cs))) of
           Some g \<Rightarrow> [fromQuote @ g @ [APOS, CHR '':''], g]
         | None \<Rightarrow> sourceRx cs)
      else sourceRx cs)"

text \<open>\<^verbatim>\<open>(\d{2}\.\d{2}|\d{2}) fps\<close>\<close>

fun fpsRx :: "string \<Rightarrow> string list" where
  "fpsRx [] = []"
| "fpsRx (c # cs) =
     (let s = c # cs in
      if digit2 s \<and> HasPrefix (drop 2 s) ''.'' \<and> digit2 (drop 3 s) \<and> HasPrefix (drop 5 s) '' fps''
        then [take 9 s, take 5 s]
      else if digit2 s \<and> HasPrefix (drop 2 s) '' fps''
        then [take 6 s, take 2 s]
      else fpsRx cs)"

subsection \<open>Colours, clock and the progress bar\<close>

record Colors =
  Reset :: string
  Bold :: string
  Red :: string
  Green :: string
  Yellow :: string
  Blue :: string
  BrightRed :: string
  BrightYellow :: string

definition NewColors :: Colors where
  "NewColors = \<lparr> Reset = ESC # ''[0m'', Bold = ESC # ''[1m'', Red = ESC # ''[31m'',
     Green = ESC # ''[32m'', Yellow = ESC # ''[33m'', Blue = ESC # ''[34m'',
     BrightRed = ESC # ''[91m'', BrightYellow = ESC # ''[93m'' \<rparr>"

text \<open>
  A \<^verbatim>\<open>time.Time\<close> is the number of nanoseconds since the zero time, a
  \<^verbatim>\<open>time.Duration\<close> a number of nanoseconds in 64 bits. \<^verbatim>\<open>Time.Sub\<close> saturates at
  the two ends of the duration range. Every reading of \<^verbatim>\<open>time.Now()\<close> is an argument
  of the function that makes it; the two readings taken while one position line is
  processed (by the constructor of the bar and by \<^verbatim>\<open>Update\<close>) are one argument.
\<close>

definition minDuration :: int where "minDuration = - (2 ^ 63)"
definition maxDuration :: int where "maxDuration = 2 ^ 63 - 1"
definition Millisecond :: int where "Millisecond = 1000000"

definition Sub :: "int \<Rightarrow> int \<Rightarrow> int" where
  "Sub t u =
     (let d = t - u
      in if d < minDuration then minDuration else if maxDuration < d then maxDuration else d)"

record ProgressBar =
  pb_total :: int
  pb_current :: int
  pb_desc :: string
  pb_unit :: string
  pb_startTime :: int
  pb_colors :: "Colors option"
  pb_useColors :: bool
  pb_lastUpdate :: int
  pb_updateDelay :: int

text \<open>
  What reaches the diagnostic stream (\<^verbatim>\<open>os.Stderr\<close>, the \<^verbatim>\<open>file\<close> of the bar and of
  the notifier): a text written as it is, or one redraw of the status line. The text of a
  redraw is a function of the bar, the clock and the terminal width; the stream records
  the bar and the clock reading of the update (or of the finish) that drew it.
\<close>

datatype event = Write string | Render int ProgressBar

definition NewProgressBar :: "int \<Rightarrow> string \<Rightarrow> int \<Rightarrow> string \<Rightarrow> bool \<Rightarrow> ProgressBar" where
  "NewProgressBar now desc total' unit useColors' =
     \<lparr> pb_total = total', pb_current = 0, pb_desc = desc, pb_unit = unit,
       pb_startTime = now,
       pb_colors = (if useColors' then Some NewColors else None),
       pb_useColors = useColors', pb_lastUpdate = 0,
       pb_updateDelay = 50 * Millisecond \<rparr>"

definition render :: "int \<Rightarrow> ProgressBar \<Rightarrow> event list" where
  "render now pb = [Render now pb]"

definition Update :: "int \<Rightarrow> int \<Rightarrow> ProgressBar \<Rightarrow> ProgressBar \<times> event list" where
  "Update now current pb =
     (let pb1 = pb\<lparr>pb_current := current\<rparr>
      in if Sub now (pb_lastUpdate pb1) < pb_updateDelay pb1 then (pb1, [])
         else let pb2 = pb1\<lparr>pb_lastUpdate := now\<rparr> in (pb2, render now pb2))"

definition Finish :: "int \<Rightarrow> ProgressBar \<Rightarrow> ProgressBar \<times> event list" where
  "Finish now pb =
     (let pb1 = pb\<lparr>pb_current := pb_total pb\<rparr>
      in (pb1, render now pb1 @ [Write [LF]]))"

subsection \<open>The notifier\<close>

text \<open>
  The writers are modelled by what has been written to them: \<open>fileOut\<close> is the list of
  events on the diagnostic stream, \<open>stdinWriter\<close> the bytes sent to the wrapped
  process's input. \<open>forwards\<close> counts the \<^verbatim>\<open>go cpn.forwardUserInput()\<close> statements
  executed, that is the forwarding tasks started.
\<close>

record ColoredProgressNotifier =
  lines :: "string list"
  lineAcc :: string
  duration :: int
  source :: string
  started :: bool
  pbar :: "ProgressBar option"
  fps :: int
  fileOut :: "event list"
  useColors :: bool
  colors :: "Colors option"
  stdinWriter :: string
  stderrBuffer :: string
  waitingForInput :: bool
  forwards :: nat

definition NewColoredProgressNotifier :: "bool \<Rightarrow> bool \<Rightarrow> ColoredProgressNotifier" where
  "NewColoredProgressNotifier useColors' supportsColor =
     \<lparr> lines = [], lineAcc = [], duration = 0, source = [], started = False,
       pbar = None, fps = 0, fileOut = [],
       useColors = (useColors' \<and> supportsColor),
       colors = (if useColors' \<and> supportsColor then Some NewColors else None),
       stdinWriter = [], stderrBuffer = [], waitingForInput = False, forwards = 0 \<rparr>"

definition seconds :: "string \<Rightarrow> string \<Rightarrow> string \<Rightarrow> int" where
  "seconds hours minutes secs =
     (let h = (case Atoi hours of Some v \<Rightarrow> v | None \<Rightarrow> 0);
          m = (case Atoi minutes of Some v \<Rightarrow> v | None \<Rightarrow> 0);
          s = (case Atoi secs of Some v \<Rightarrow> v | None \<Rightarrow> 0)
      in (h * 60 + m) * 60 + s)"

definition newline :: "ColoredProgressNotifier \<Rightarrow> string \<times> ColoredProgressNotifier" where
  "newline cpn = (lineAcc cpn, cpn\<lparr>lines := lines cpn @ [lineAcc cpn], lineAcc := []\<rparr>)"

definition getDuration :: "string \<Rightarrow> int" where
  "getDuration line =
     (let matches = durationRx line
      in if 3 < length matches then seconds (matches ! 1) (matches ! 2) (matches ! 3) else 0)"

definition getSource :: "string \<Rightarrow> string" where
  "getSource line =
     (let matches = sourceRx line
      in if 1 < length matches then Base (matches ! 1) else [])"

definition getFPS :: "string \<Rightarrow> int" where
  "getFPS line =
     (let matches = fpsRx line
      in if 1 < length matches then
           (case ParseFloat (matches ! 1) of Some f \<Rightarrow> toInt f | None \<Rightarrow> 0)
         else 0)"

definition progress :: "int \<Rightarrow> string \<Rightarrow> ColoredProgressNotifier \<Rightarrow> ColoredProgressNotifier" where
  "progress now line cpn =
     (let matches = progressRx line
      in if 3 < length matches then
           (let total0 = duration cpn;
                current0 = seconds (matches ! 1) (matches ! 2) (matches ! 3);
                unit = (if 0 < fps cpn then ''frames'' else ''seconds'');
                current = (if 0 < fps cpn then current0 * fps cpn else current0);
                total' = (if 0 < fps cpn \<and> 0 < total0 then total0 * fps cpn else total0);
                pb = (case pbar cpn of
                        None \<Rightarrow> NewProgressBar now
                                 (if source cpn = [] then ''Processing'' else source cpn)
                                 total' unit (useColors cpn)
                      | Some b \<Rightarrow> b);
                (pb', evs) = Update now current pb
            in cpn\<lparr>pbar := Some pb', fileOut := fileOut cpn @ evs\<rparr>)
         else cpn)"

definition promptSuffix :: string where
  "promptSuffix = ''[y/N] ''"

definition ProcessChar :: "int \<Rightarrow> char \<Rightarrow> ColoredProgressNotifier \<Rightarrow> ColoredProgressNotifier" where
  "ProcessChar now char cpn0 =
     (let cpn = cpn0\<lparr>stderrBuffer := stderrBuffer cpn0 @ [char]\<rparr>
      in if char = CR \<or> char = LF then
           (let (line, cpn1) = newline cpn;
                cpn2 = (if duration cpn1 = 0 then cpn1\<lparr>duration := getDuration line\<rparr> else cpn1);
                cpn3 = (if source cpn2 = [] then cpn2\<lparr>source := getSource line\<rparr> else cpn2);
                cpn4 = (if fps cpn3 = 0 then cpn3\<lparr>fps := getFPS line\<rparr> else cpn3)
            in progress now line cpn4)
         else
           (let cpn1 = cpn\<lparr>lineAcc := lineAcc cpn @ [char]\<rparr>
            in if HasSuffix (lineAcc cpn1) promptSuffix then
                 (let prompt = lineAcc cpn1;
                      cpn2 = (case colors cpn1 of
                                Some cs \<Rightarrow>
                                  if useColors cpn1
                                  then cpn1\<lparr>fileOut := fileOut cpn1 @ [Write (BrightYellow cs @ Bold cs @ prompt @ Reset cs)]\<rparr>
                                  else cpn1\<lparr>fileOut := fileOut cpn1 @ [Write prompt]\<rparr>
                              | None \<Rightarrow> cpn1\<lparr>fileOut := fileOut cpn1 @ [Write prompt]\<rparr>);
                      cpn3 = cpn2\<lparr>waitingForInput := True, forwards := Suc (forwards cpn2)\<rparr>
                  in snd (newline cpn3))
               else cpn1))"


text \<open>
  The reading loop of \<^verbatim>\<open>main\<close>: every byte read from the wrapped process's
  diagnostic stream goes through \<open>ProcessChar\<close>; each byte comes with the clock
  reading of the moment it is processed.
\<close>

definition feed :: "(int \<times> char) list \<Rightarrow> ColoredProgressNotifier \<Rightarrow> ColoredProgressNotifier" where
  "feed bs cpn = foldl (\<lambda>s (now, c). ProcessChar now c s) cpn bs"

definition Close :: "int \<Rightarrow> ColoredProgressNotifier \<Rightarrow> ColoredProgressNotifier" where
  "Close now cpn =
     (case pbar cpn of
        None \<Rightarrow> cpn
      | Some pb \<Rightarrow> (let (pb', evs) = Finish now pb in cpn\<lparr>pbar := Some pb', fileOut := fileOut cpn @ evs\<rparr>))"

subsection \<open>The forwarding task\<close>



definition GetStderrContent :: "ColoredProgressNotifier \<Rightarrow> string" where
  "GetStderrContent cpn = stderrBuffer cpn"

subsection \<open>Percentage and the trailing information of a redraw\<close>

text \<open>
  The percentage of \<^verbatim>\<open>render\<close>. The conversions \<^verbatim>\<open>float64(pb.current)\<close> and
  \<^verbatim>\<open>float64(pb.total)\<close> are exact for the numbers of this program; the division and
  the multiplication each round their exact result to a double. The rounding is the
  parameter \<open>rnd\<close>.
\<close>

definition percentage :: "(rat \<Rightarrow> rat) \<Rightarrow> ProgressBar \<Rightarrow> rat" where
  "percentage rnd pb =
     (if pb_total pb = 0 then 0
      else rnd (rnd (of_int (pb_current pb) / of_int (pb_total pb)) * 100))"

text \<open>The verb \<^verbatim>\<open>%d\<close>, and \<^verbatim>\<open>%02d\<close>, which pads with zeros to two places.\<close>

fun digitsNat :: "nat \<Rightarrow> string" where
  "digitsNat n =
     (if n < 10 then [char_of (48 + n)]
      else digitsNat (n div 10) @ [char_of (48 + n mod 10)])"

declare digitsNat.simps [simp del]

definition formatInt :: "int \<Rightarrow> string" where
  "formatInt i = (if i < 0 then CHR ''-'' # digitsNat (nat (- i)) else digitsNat (nat i))"

definition formatInt02 :: "int \<Rightarrow> string" where
  "formatInt02 i =
     (let s = formatInt i in replicate (2 - length s) CHR ''0'' @ s)"

text \<open>
  \<^verbatim>\<open>int(d.Seconds())\<close> is the number of whole seconds of a non-negative duration
  (the float sum of seconds and fraction is exact enough for that below some
  \<^verbatim>\<open>2^23\<close> seconds).
\<close>

definition formatDurationSimple :: "int \<Rightarrow> string" where
  "formatDurationSimple d =
     (if d < 0 then ''00:00''
      else let totalSeconds = d div 1000000000;
               minutes = totalSeconds div 60;
               secs = totalSeconds mod 60
           in formatInt02 minutes @ '':'' @ formatInt02 secs)"

definition bullet :: string where
  "bullet = [CHR 0xE2, CHR 0x80, CHR 0xA2]"

text \<open>
  The trailing information of \<^verbatim>\<open>render\<close>. \<open>pct\<close> and \<open>rate\<close> are the texts
  that \<^verbatim>\<open>%.1f\<close> and \<^verbatim>\<open>%.0f\<close> give for the percentage and the rate,
  \<open>remaining\<close> is the estimated remaining duration: the three come from floating
  point arithmetic and formatting and are arguments here.
\<close>

definition rightInfo :: "ProgressBar \<Rightarrow> string \<Rightarrow> string \<Rightarrow> int \<Rightarrow> string" where
  "rightInfo pb pct rate remaining =
     (case (if pb_useColors pb then pb_colors pb else None) of
        Some cs \<Rightarrow>
          '' '' @ Yellow cs @ pct @ ''%'' @ Reset cs @ '' '' @ bullet @ '' ''
            @ formatInt (pb_current pb) @ ''/'' @ formatInt (pb_total pb) @ '' '' @ bullet @ '' ''
            @ Red cs @ rate @ ''fps'' @ Reset cs @ '' '' @ bullet @ '' ETA ''
            @ Blue cs @ formatDurationSimple remaining @ Reset cs
      | None \<Rightarrow>
          '' '' @ pct @ ''% '' @ bullet @ '' ''
            @ formatInt (pb_current pb) @ ''/'' @ formatInt (pb_total pb) @ '' '' @ bullet @ '' ''
            @ rate @ ''fps '' @ bullet @ '' ETA '' @ formatDurationSimple remaining)"

text \<open>
  The characters that the float verbs can produce: digits, the point, a sign, and the
  letters of \<^verbatim>\<open>NaN\<close> and \<^verbatim>\<open>Inf\<close>.
\<close>

definition floatText :: "string \<Rightarrow> bool" where
  "floatText s = list_all (\<lambda>c. c \<in> set ''0123456789.+-InfNa'') s"

subsection \<open>Measuring the display width: \<^verbatim>\<open>stripANSI\<close>\<close>

text \<open>
  \<^verbatim>\<open>\x1b\[[0-9;]*[mGKHfABCDEFGJSTuhlp]\<close> at the front of the text; the result is
  the length of the match. The parameter bytes and the final bytes are disjoint, so the
  greedy star has one way only to match.
\<close>

definition isParam :: "char \<Rightarrow> bool" where
  "isParam c = (isDigit c \<or> c = CHR '';'')"

definition isFinal :: "char \<Rightarrow> bool" where
  "isFinal c = (c \<in> set ''mGKHfABCDEFGJSTuhlp'')"

definition ansiAt :: "string \<Rightarrow> nat option" where
  "ansiAt s =
     (case s of
        e # b # rest \<Rightarrow>
          if e = ESC \<and> b = CHR ''['' then
            (case dropWhile isParam rest of
               f # _ \<Rightarrow> if isFinal f then Some (3 + length (takeWhile isParam rest)) else None
             | [] \<Rightarrow> None)
          else None
      | _ \<Rightarrow> None)"

text \<open>\<^verbatim>\<open>ansiRe.ReplaceAllString(str, "")\<close>: the matches, found from the left, are removed.\<close>

fun removeANSI :: "string \<Rightarrow> string" where
  "removeANSI [] = []"
| "removeANSI (c # cs) =
     (case ansiAt (c # cs) of
        Some n \<Rightarrow> removeANSI (drop (n - 1) cs)
      | None \<Rightarrow> c # removeANSI cs)"

text \<open>
  The width of the rune at the front of a text, as \<^verbatim>\<open>utf8.DecodeRuneInString\<close>
  finds it: the length of a well-formed sequence, and 1 for an ASCII byte and for a
  byte that starts no well-formed sequence.
\<close>

definition byte :: "char \<Rightarrow> nat" where
  "byte c = of_char c"

definition cont :: "nat \<Rightarrow> nat \<Rightarrow> string \<Rightarrow> nat \<Rightarrow> bool" where
  "cont lo hi s i = (i < length s \<and> lo \<le> byte (s ! i) \<and> byte (s ! i) \<le> hi)"

definition runeWidth :: "string \<Rightarrow> nat" where
  "runeWidth s =
     (case s of
        [] \<Rightarrow> 0
      | c # _ \<Rightarrow>
          let b = byte c;
              sz = (if 0xC2 \<le> b \<and> b \<le> 0xDF then 2
                    else if 0xE0 \<le> b \<and> b \<le> 0xEF then 3
                    else if 0xF0 \<le> b \<and> b \<le> 0xF4 then 4 else 1);
              lo = (if b = 0xE0 then 0xA0 else if b = 0xF0 then 0x90 else 0x80);
              hi = (if b = 0xED then 0x9F else if b = 0xF4 then 0x8F else 0xBF)
          in if sz = Suc 0 then 1
             else if length s < sz then 1
             else if \<not> cont lo hi s 1 then 1
             else if sz \<le> 2 then 2
             else if \<not> cont 0x80 0xBF s 2 then 1
             else if sz \<le> 3 then 3
             else if \<not> cont 0x80 0xBF s 3 then 1
             else 4)"

text \<open>\<^verbatim>\<open>unicodeRe.ReplaceAllString(stripped, " ")\<close> with the class \<^verbatim>\<open>[^\x00-\x7F]\<close>.\<close>

fun replaceNonASCII :: "string \<Rightarrow> string" where
  "replaceNonASCII [] = []"
| "replaceNonASCII (c # cs) =
     (if byte c < 128 then c # replaceNonASCII cs
      else CHR '' '' # replaceNonASCII (drop (runeWidth (c # cs) - 1) cs))"

definition stripANSI :: "string \<Rightarrow> string" where
  "stripANSI str = replaceNonASCII (removeANSI str)"

text \<open>\<^verbatim>\<open>handleFilename\<close>: the label at the left of the bar.\<close>

definition handleFilename :: "string \<Rightarrow> string" where
  "handleFilename filename = (if 30 < length filename then take 27 filename @ ''...'' else filename)"

subsection \<open>The supervisor: \<^verbatim>\<open>main\<close>\<close>

text \<open>
  The two signals \<^verbatim>\<open>main\<close> subscribes to (\<^verbatim>\<open>os.Interrupt\<close> is
  \<^verbatim>\<open>syscall.SIGINT\<close>) and their numbers.
\<close>

datatype signal = SIGINT | SIGTERM

fun signum :: "signal \<Rightarrow> int" where
  "signum SIGINT = 2"
| "signum SIGTERM = 15"

text \<open>
  What \<^verbatim>\<open>main\<close> meets in its environment. An error value is its message.
  \<open>selected\<close> is the case the \<^verbatim>\<open>select\<close> statement takes: a signal from
  \<^verbatim>\<open>sigChan\<close>, or the value the reading task sends on \<^verbatim>\<open>done\<close>
  (\<open>None\<close> at the end of the stream, the error otherwise). \<open>waited\<close> is the result
  of \<^verbatim>\<open>cmd.Wait()\<close>: no error, an \<^verbatim>\<open>*exec.ExitError\<close> with its
  \<^verbatim>\<open>ExitCode()\<close> (the exit status, 1 to 255, of a process that has exited, and -1
  for a process ended by a signal), or another error. \<open>processed\<close> holds the bytes the reading task
  has given to \<open>ProcessChar\<close> when the \<^verbatim>\<open>select\<close> statement returns, each with
  its clock reading.
\<close>

datatype selected = Signalled signal | Done "string option"

datatype waited = WaitNil | ExitError int | WaitError string

record world =
  args :: "string list"
  supportsColorStderr :: bool
  stderrPipeErr :: "string option"
  stdinPipeErr :: "string option"
  startErr :: "string option"
  processed :: "(int \<times> char) list"
  select :: selected
  waitResult :: waited
  closeTime :: int

text \<open>
  The result of a run: the status the program exits with, what it has written to its
  diagnostic stream, and whether it has killed the wrapped process.
\<close>

record outcome =
  exitStatus :: int
  stderrOut :: "event list"
  killed :: bool

text \<open>
  \<^verbatim>\<open>os.Exit(code)\<close>: the status the parent of the program sees is the low eight bits
  of the argument (the Unix rule), so \<^verbatim>\<open>os.Exit(-1)\<close> ends the program with 255.
\<close>

definition osExit :: "int \<Rightarrow> int" where
  "osExit code = code mod 256"

definition exitWith :: "int \<Rightarrow> event list \<Rightarrow> outcome" where
  "exitWith code out = \<lparr> exitStatus = osExit code, stderrOut = out, killed = False \<rparr>"

text \<open>
  \<^verbatim>\<open>main\<close> of the documented revision. A call of \<^verbatim>\<open>os.Exit\<close> ends the program
  without running the deferred \<^verbatim>\<open>notifier.Close()\<close>; only the return at the end of
  \<^verbatim>\<open>main\<close> runs it, and the program then ends with status 0.
\<close>

definition main :: "world \<Rightarrow> outcome" where
  "main w =
     (if length (args w) < 2 then
        exitWith 1 [Write (''Usage: '' @ (case args w of [] \<Rightarrow> [] | a # _ \<Rightarrow> a) @ '' <ffmpeg-args>'' @ [LF])]
      else case stderrPipeErr w of
        Some e \<Rightarrow> exitWith 1 [Write (''Error creating stderr pipe: '' @ e @ [LF])]
      | None \<Rightarrow>
      (case stdinPipeErr w of
        Some e \<Rightarrow> exitWith 1 [Write (''Error creating stdin pipe: '' @ e @ [LF])]
      | None \<Rightarrow>
      (let useColors' = supportsColorStderr w;
           notifier0 = NewColoredProgressNotifier useColors' (supportsColorStderr w)
       in case startErr w of
            Some e \<Rightarrow> exitWith 1 [Write (''Error starting ffmpeg: '' @ e @ [LF])]
          | None \<Rightarrow>
          (let notifier = feed (processed w) notifier0
           in case select w of
                Signalled sig \<Rightarrow>
                  \<lparr> exitStatus = osExit (128 + signum SIGINT),
                    stderrOut = fileOut notifier @
                      [Write (if useColors'
                              then BrightRed NewColors @ Bold NewColors @ ''Exiting.'' @ Reset NewColors @ [LF]
                              else ''Exiting.'' @ [LF])],
                    killed = True \<rparr>
              | Done (Some e) \<Rightarrow>
                  exitWith 1 (fileOut notifier @ [Write (''Error reading ffmpeg output: '' @ e @ [LF])])
              | Done None \<Rightarrow>
                  (case waitResult w of
                     ExitError code \<Rightarrow>
                       (let stderrContent = GetStderrContent notifier
                        in exitWith code
                             (fileOut notifier @
                                (if stderrContent \<noteq> [] then [Write stderrContent] else [])))
                   | WaitError e \<Rightarrow>
                       exitWith 1 (fileOut notifier @ [Write (''Error waiting for ffmpeg: '' @ e @ [LF])])
                   | WaitNil \<Rightarrow>
                       exitWith 0 (fileOut (Close (closeTime w) notifier)))))))"



subsection \<open>Notions for the statements and their proofs\<close>

text \<open>
  \<open>plain acc l\<close>: the bytes \<open>l\<close>, appended one by one to the in-progress buffer
  \<open>acc\<close>, hold no line terminator and never complete the prompt suffix.
\<close>

fun plain :: "string \<Rightarrow> string \<Rightarrow> bool" where
  "plain acc [] = True"
| "plain acc (c # cs) =
     (c \<noteq> CR \<and> c \<noteq> LF \<and> \<not> HasSuffix (acc @ [c]) promptSuffix \<and> plain (acc @ [c]) cs)"

text \<open>
  The three guarded assignments of the terminator branch of \<open>ProcessChar\<close>, as one
  update of the notifier.
\<close>

definition learn :: "string \<Rightarrow> ColoredProgressNotifier \<Rightarrow> ColoredProgressNotifier" where
  "learn line cpn =
     cpn\<lparr>duration := (if duration cpn = 0 then getDuration line else duration cpn),
         source := (if source cpn = [] then getSource line else source cpn),
         fps := (if fps cpn = 0 then getFPS line else fps cpn)\<rparr>"

text \<open>
  The clock readings of the redraws on a stream, in their order; two readings are
  \<open>apart\<close> when the later is at least 50 milliseconds after the earlier.
\<close>

definition renderTimes :: "event list \<Rightarrow> int list" where
  "renderTimes evs = concat (map (\<lambda>e. case e of Render t _ \<Rightarrow> [t] | Write _ \<Rightarrow> []) evs)"

definition apart :: "int \<Rightarrow> int \<Rightarrow> bool" where
  "apart a b = (50 * Millisecond \<le> b - a)"

text \<open>
  The invariant of the reading loop behind the throttling: the redraws so far are
  pairwise apart, and the bar, once it exists, has the delay of its constructor and
  remembers the reading of the last redraw.
\<close>

definition throttled :: "ColoredProgressNotifier \<Rightarrow> bool" where
  "throttled cpn =
     (successively apart (renderTimes (fileOut cpn))
      \<and> (case pbar cpn of
            None \<Rightarrow> renderTimes (fileOut cpn) = []
          | Some pb \<Rightarrow> pb_updateDelay pb = 50 * Millisecond
                       \<and> (renderTimes (fileOut cpn) \<noteq> [] \<longrightarrow>
                            last (renderTimes (fileOut cpn)) = pb_lastUpdate pb)))"

text \<open>
  The calls of \<^verbatim>\<open>cpn.pbar.Update\<close> that a run makes, in their order: \<open>progress\<close>
  makes one at each line terminator whose completed line matches the position pattern.
  For each call the list holds the position the line reports (its seconds, before any
  frame factor) and the bar as the call leaves it.
\<close>

fun updatesOf :: "(int \<times> char) list \<Rightarrow> ColoredProgressNotifier \<Rightarrow> (int \<times> ProgressBar) list" where
  "updatesOf [] cpn = []"
| "updatesOf ((now, c) # bs) cpn =
     (if (c = CR \<or> c = LF) \<and> 3 < length (progressRx (lineAcc cpn)) then
        (case pbar (ProcessChar now c cpn) of
           Some pb \<Rightarrow>
             [(seconds (progressRx (lineAcc cpn) ! 1) (progressRx (lineAcc cpn) ! 2)
                 (progressRx (lineAcc cpn) ! 3), pb)]
         | None \<Rightarrow> [])
      else [])
     @ updatesOf bs (ProcessChar now c cpn)"

text \<open>
  Two successive calls are \<open>steady\<close> when the bar has kept its total and, if the
  reported position has not gone down, the percentage has not gone down either.
\<close>

definition steady :: "(rat \<Rightarrow> rat) \<Rightarrow> int \<times> ProgressBar \<Rightarrow> int \<times> ProgressBar \<Rightarrow> bool" where
  "steady rnd a b =
     (pb_total (snd b) = pb_total (snd a)
      \<and> (fst a \<le> fst b \<longrightarrow> percentage rnd (snd a) \<le> percentage rnd (snd b)))"

text \<open>
  The invariant of the reading loop behind it. \<open>prev\<close> is the last call so far, if any:
  its position and the bar it left, which is still the bar of the notifier. Frame rate,
  duration, position and total are not negative, and the current value of the bar is at
  most the position times the frame factor of \<open>progress\<close>: the frame rate once one is
  known, and 1 before.
\<close>

definition tracked :: "ColoredProgressNotifier \<Rightarrow> (int \<times> ProgressBar) option \<Rightarrow> bool" where
  "tracked cpn prev =
     (0 \<le> fps cpn \<and> 0 \<le> duration cpn
      \<and> (case prev of
            None \<Rightarrow> pbar cpn = None
          | Some (p, b) \<Rightarrow>
              pbar cpn = Some b \<and> 0 \<le> p \<and> 0 \<le> pb_total b
              \<and> pb_current b \<le> p * (if 0 < fps cpn then fps cpn else 1)))"

text \<open>Bytes that all arrive at one clock reading.\<close>

definition stamp :: "int \<Rightarrow> string \<Rightarrow> (int \<times> char) list" where
  "stamp t s = map (Pair t) s"

subsection \<open>Sample runs\<close>

text \<open>
  A run in which the wrapped process writes \<^verbatim>\<open>no\<close> and a line feed and exits with
  status 1.
\<close>

definition failingRun :: world where
  "failingRun = \<lparr> args = [''fpb'', ''-i'', ''in.mp4''],
       supportsColorStderr = False, stderrPipeErr = None, stdinPipeErr = None,
       startErr = None, processed = [(1, CHR ''n''), (2, CHR ''o''), (3, LF)],
       select = Done None, waitResult = ExitError 1, closeTime = 9 \<rparr>"

text \<open>The lines of the end-to-end scenarios, and two lines that go against a first match.\<close>

definition fpsLine :: string where "fpsLine = ''29.97 fps''"
definition durationLine :: string where "durationLine = ''Duration: 00:01:30.00''"
definition sourceLine :: string where
  "sourceLine = ''from '' @ [APOS] @ ''clip.mp4'' @ [APOS] @ '':''"
definition timeLine :: string where "timeLine = ''time=00:00:45.00''"
definition zeroDurationLine :: string where "zeroDurationLine = ''Duration: 00:00:00.04''"
definition earlierTimeLine :: string where "earlierTimeLine = ''time=00:00:30.00''"

text \<open>A stream with a duration of zero seconds first and a duration of ninety seconds after it.\<close>

definition zeroFirstRun :: "(int \<times> char) list" where
  "zeroFirstRun = (stamp 1 zeroDurationLine @ [(1, LF)]) @ (stamp 2 durationLine @ [(2, LF)])"

text \<open>
  A stream whose second position (30 seconds) lies before its first (45 seconds), one
  second of clock time apart, and the two bars it makes the renderer draw.
\<close>

definition backwardsRun :: "(int \<times> char) list" where
  "backwardsRun =
     (stamp 1000000000 durationLine @ [(1000000000, LF)])
     @ (stamp 2000000000 timeLine @ [(2000000000, LF)])
     @ (stamp 3000000000 earlierTimeLine @ [(3000000000, LF)])"

definition firstBar :: ProgressBar where
  "firstBar = \<lparr> pb_total = 90, pb_current = 45, pb_desc = ''Processing'', pb_unit = ''seconds'',
       pb_startTime = 2000000000, pb_colors = None, pb_useColors = False,
       pb_lastUpdate = 2000000000, pb_updateDelay = 50000000 \<rparr>"

definition secondBar :: ProgressBar where
  "secondBar = firstBar\<lparr>pb_current := 30, pb_lastUpdate := 3000000000\<rparr>"

text \<open>
  The same stream with its two positions in their order and the bar after each of its two
  updates, and a failing run whose whole diagnostic output is a prompt.
\<close>

definition forwardsRun :: "(int \<times> char) list" where
  "forwardsRun =
     (stamp 1000000000 durationLine @ [(1000000000, LF)])
     @ (stamp 2000000000 earlierTimeLine @ [(2000000000, LF)])
     @ (stamp 3000000000 timeLine @ [(3000000000, LF)])"

definition earlyBar :: ProgressBar where
  "earlyBar = firstBar\<lparr>pb_current := 30\<rparr>"

definition lateBar :: ProgressBar where
  "lateBar = firstBar\<lparr>pb_lastUpdate := 3000000000\<rparr>"



text \<open>A notifier that knows its three facts, and one with a duration line pending.\<close>

definition knownState :: ColoredProgressNotifier where
  "knownState = (NewColoredProgressNotifier False False)
     \<lparr>duration := 120, source := ''clip.mp4'', fps := 29\<rparr>"

definition pendingState :: ColoredProgressNotifier where
  "pendingState = (NewColoredProgressNotifier False False)\<lparr>lineAcc := durationLine\<rparr>"

text \<open>A coloured bar half way through.\<close>

definition shownBar :: ProgressBar where
  "shownBar = (NewProgressBar 0 ''clip.mp4'' 2610 ''frames'' True)\<lparr>pb_current := 1305\<rparr>"

section \<open>Properties\<close>

subsection \<open>The two revisions of \<^verbatim>\<open>ProcessChar\<close>\<close>






subsection \<open>What a progress line leaves alone\<close>

lemma progress_keeps:
  "lines (progress now l cpn) = lines cpn"
  "lineAcc (progress now l cpn) = lineAcc cpn"
  "duration (progress now l cpn) = duration cpn"
  "source (progress now l cpn) = source cpn"
  "fps (progress now l cpn) = fps cpn"
  "stderrBuffer (progress now l cpn) = stderrBuffer cpn"
  "stdinWriter (progress now l cpn) = stdinWriter cpn"
  "forwards (progress now l cpn) = forwards cpn"
  "useColors (progress now l cpn) = useColors cpn"
  "colors (progress now l cpn) = colors cpn"
  by (simp_all add: progress_def Let_def split: prod.split)

subsection \<open>Line terminators\<close>

lemma terminator_step:
  assumes "c = CR \<or> c = LF"
  shows "lines (ProcessChar now c cpn) = lines cpn @ [lineAcc cpn]"
    and "lineAcc (ProcessChar now c cpn) = []"
  using assms
  by (simp_all add: ProcessChar_def newline_def progress_keeps Let_def)

text \<open>
  Claim C9. A carriage return or a line feed given to \<open>ProcessChar\<close> always appends
  the in-progress buffer to the history as a completed line, also when the buffer is
  empty, and leaves the in-progress buffer empty. So a carriage return followed next by
  a line feed adds two lines to the history: the buffer, and then an empty line.
\<close>

theorem terminator_finalizes:
  assumes "c = CR \<or> c = LF"
  shows "lines (ProcessChar now c cpn) = lines cpn @ [lineAcc cpn]
       \<and> lineAcc (ProcessChar now c cpn) = []
       \<and> (\<forall>t1 t2. lines (ProcessChar t2 LF (ProcessChar t1 CR cpn)) = lines cpn @ [lineAcc cpn, []])"
  using assms by (simp add: terminator_step)

theorem terminator_finalizes_witness:
  "(CR = CR \<or> CR = LF)
   \<and> lines (ProcessChar 7 CR ((NewColoredProgressNotifier False False)\<lparr>lineAcc := ''frame=  10''\<rparr>))
       = [''frame=  10'']
   \<and> lineAcc (ProcessChar 7 CR ((NewColoredProgressNotifier False False)\<lparr>lineAcc := ''frame=  10''\<rparr>)) = []
   \<and> lines (ProcessChar 9 LF (ProcessChar 8 CR
         ((NewColoredProgressNotifier False False)\<lparr>lineAcc := ''frame=  10''\<rparr>)))
       = [''frame=  10'', []]"
  using terminator_finalizes
    [of CR 7 "(NewColoredProgressNotifier False False)\<lparr>lineAcc := ''frame=  10''\<rparr>"]
  by (simp add: NewColoredProgressNotifier_def)

subsection \<open>The confirmation prompt\<close>

lemma prompt_byte_is_space:
  "HasSuffix (acc @ [c]) promptSuffix \<Longrightarrow> c = CHR '' ''"
  by (simp add: HasSuffix_def promptSuffix_def)

lemma prompt_byte_no_terminator:
  "HasSuffix (acc @ [c]) promptSuffix \<Longrightarrow> c \<noteq> CR \<and> c \<noteq> LF"
  by (auto dest!: prompt_byte_is_space simp: CR_def LF_def)

lemma ProcessChar_prompt:
  assumes "HasSuffix (lineAcc cpn @ [c]) promptSuffix"
  shows "ProcessChar now c cpn =
           cpn\<lparr>lines := lines cpn @ [lineAcc cpn @ [c]], lineAcc := [],
               fileOut := fileOut cpn @
                 [Write (case colors cpn of
                           Some cs \<Rightarrow> if useColors cpn
                                      then BrightYellow cs @ Bold cs @ (lineAcc cpn @ [c]) @ Reset cs
                                      else lineAcc cpn @ [c]
                         | None \<Rightarrow> lineAcc cpn @ [c])],
               stderrBuffer := stderrBuffer cpn @ [c],
               waitingForInput := True, forwards := Suc (forwards cpn)\<rparr>"
  using assms prompt_byte_no_terminator [OF assms]
  by (simp add: ProcessChar_def newline_def Let_def split: option.split)






text \<open>
  Claim C10. The byte that completes the prompt suffix moves the in-progress line to the
  history and empties the accumulator, and nothing is extracted from that line: the
  duration, the source name, the frame rate and the progress bar are what they were.
\<close>

theorem prompt_no_extraction:
  assumes "HasSuffix (lineAcc cpn @ [c]) promptSuffix"
  shows "lines (ProcessChar now c cpn) = lines cpn @ [lineAcc cpn @ [c]]
       \<and> lineAcc (ProcessChar now c cpn) = []
       \<and> duration (ProcessChar now c cpn) = duration cpn
       \<and> source (ProcessChar now c cpn) = source cpn
       \<and> fps (ProcessChar now c cpn) = fps cpn
       \<and> pbar (ProcessChar now c cpn) = pbar cpn"
  by (simp add: ProcessChar_prompt [OF assms])

theorem prompt_no_extraction_witness:
  "HasSuffix (lineAcc ((NewColoredProgressNotifier False False)
        \<lparr>lineAcc := ''Duration: 00:01:30.00 [y/N]''\<rparr>) @ [CHR '' '']) promptSuffix
   \<and> lines (ProcessChar 5 CHR '' '' ((NewColoredProgressNotifier False False)
        \<lparr>lineAcc := ''Duration: 00:01:30.00 [y/N]''\<rparr>)) = [''Duration: 00:01:30.00 [y/N] '']
   \<and> lineAcc (ProcessChar 5 CHR '' '' ((NewColoredProgressNotifier False False)
        \<lparr>lineAcc := ''Duration: 00:01:30.00 [y/N]''\<rparr>)) = []
   \<and> duration (ProcessChar 5 CHR '' '' ((NewColoredProgressNotifier False False)
        \<lparr>lineAcc := ''Duration: 00:01:30.00 [y/N]''\<rparr>)) = 0
   \<and> pbar (ProcessChar 5 CHR '' '' ((NewColoredProgressNotifier False False)
        \<lparr>lineAcc := ''Duration: 00:01:30.00 [y/N]''\<rparr>)) = None"
proof -
  let ?cpn = "(NewColoredProgressNotifier False False)\<lparr>lineAcc := ''Duration: 00:01:30.00 [y/N]''\<rparr>"
  have h: "HasSuffix (lineAcc ?cpn @ [CHR '' '']) promptSuffix"
    by (simp add: HasSuffix_def promptSuffix_def)
  from h prompt_no_extraction [OF h, of 5] show ?thesis
    by (simp add: NewColoredProgressNotifier_def)
qed

subsection \<open>The reading loop and the buffer of diagnostics\<close>




lemma feed_Cons: "feed ((t, c) # bs) cpn = feed bs (ProcessChar t c cpn)"
  by (simp add: feed_def)

lemma feed_append: "feed (xs @ ys) cpn = feed ys (feed xs cpn)"
  by (simp add: feed_def)



subsection \<open>The exit of the supervisor\<close>






text \<open>
  Claim C7. \<^verbatim>\<open>main\<close> subscribes to the interrupt and to the termination signal,
  and in the signal case kills the wrapped process and exits with 128 plus the number of
  the interrupt signal, whichever signal came. A run ended by the termination signal
  (number 15) exits with 130, where 128 plus the number of the signal received is 143.
\<close>

theorem sigterm_exit_status:
  "exitStatus (main (failingRun\<lparr>select := Signalled SIGTERM\<rparr>)) = 130
   \<and> killed (main (failingRun\<lparr>select := Signalled SIGTERM\<rparr>))
   \<and> 128 + signum SIGTERM = 143
   \<and> exitStatus (main (failingRun\<lparr>select := Signalled SIGINT\<rparr>)) = 128 + signum SIGINT"
  by (simp add: main_def Let_def failingRun_def osExit_def)

subsection \<open>Feeding a whole line\<close>

lemma ProcessChar_plain:
  assumes "c \<noteq> CR" "c \<noteq> LF" "\<not> HasSuffix (lineAcc cpn @ [c]) promptSuffix"
  shows "ProcessChar t c cpn =
           cpn\<lparr>lineAcc := lineAcc cpn @ [c], stderrBuffer := stderrBuffer cpn @ [c]\<rparr>"
  using assms by (cases cpn) (simp add: ProcessChar_def Let_def)

lemma ProcessChar_terminator:
  assumes "c = CR \<or> c = LF"
  shows "ProcessChar t c cpn =
           progress t (lineAcc cpn)
             (learn (lineAcc cpn)
                (cpn\<lparr>lines := lines cpn @ [lineAcc cpn], lineAcc := [],
                     stderrBuffer := stderrBuffer cpn @ [c]\<rparr>))"
  using assms by (cases cpn) (simp add: ProcessChar_def newline_def learn_def Let_def)

lemma feed_plain:
  "plain (lineAcc cpn) (map snd bs) \<Longrightarrow>
   feed bs cpn = cpn\<lparr>lineAcc := lineAcc cpn @ map snd bs,
                      stderrBuffer := stderrBuffer cpn @ map snd bs\<rparr>"
proof (induction bs arbitrary: cpn)
  case Nil
  show ?case by (simp add: feed_def)
next
  case (Cons b bs)
  obtain t c where b: "b = (t, c)" by (cases b)
  let ?c1 = "cpn\<lparr>lineAcc := lineAcc cpn @ [c], stderrBuffer := stderrBuffer cpn @ [c]\<rparr>"
  from Cons.prems have c: "c \<noteq> CR" "c \<noteq> LF" "\<not> HasSuffix (lineAcc cpn @ [c]) promptSuffix"
    and rest: "plain (lineAcc ?c1) (map snd bs)"
    by (simp_all add: b)
  have "feed (b # bs) cpn = feed bs ?c1"
    by (simp add: feed_def b ProcessChar_plain [OF c])
  also have "\<dots> = ?c1\<lparr>lineAcc := lineAcc ?c1 @ map snd bs,
                        stderrBuffer := stderrBuffer ?c1 @ map snd bs\<rparr>"
    by (rule Cons.IH [OF rest])
  also have "\<dots> = cpn\<lparr>lineAcc := lineAcc cpn @ map snd (b # bs),
                        stderrBuffer := stderrBuffer cpn @ map snd (b # bs)\<rparr>"
    by (cases cpn) (simp add: b)
  finally show ?case .
qed

lemma feed_line:
  assumes "plain (lineAcc cpn) (map snd bs)" and "c = CR \<or> c = LF"
  shows "feed (bs @ [(t, c)]) cpn =
           progress t (lineAcc cpn @ map snd bs)
             (learn (lineAcc cpn @ map snd bs)
                (cpn\<lparr>lines := lines cpn @ [lineAcc cpn @ map snd bs], lineAcc := [],
                     stderrBuffer := stderrBuffer cpn @ map snd bs @ [c]\<rparr>))"
proof -
  let ?c1 = "cpn\<lparr>lineAcc := lineAcc cpn @ map snd bs,
                 stderrBuffer := stderrBuffer cpn @ map snd bs\<rparr>"
  have "feed (bs @ [(t, c)]) cpn = ProcessChar t c (feed bs cpn)"
    by (simp add: feed_def)
  also have "\<dots> = ProcessChar t c ?c1"
    by (simp only: feed_plain [OF assms(1)])
  also have "\<dots> = progress t (lineAcc ?c1)
             (learn (lineAcc ?c1)
                (?c1\<lparr>lines := lines ?c1 @ [lineAcc ?c1], lineAcc := [],
                     stderrBuffer := stderrBuffer ?c1 @ [c]\<rparr>))"
    by (rule ProcessChar_terminator [OF assms(2)])
  also have "\<dots> = progress t (lineAcc cpn @ map snd bs)
             (learn (lineAcc cpn @ map snd bs)
                (cpn\<lparr>lines := lines cpn @ [lineAcc cpn @ map snd bs], lineAcc := [],
                     stderrBuffer := stderrBuffer cpn @ map snd bs @ [c]\<rparr>))"
    by (cases cpn) simp
  finally show ?thesis .
qed

lemma learn_fields:
  "duration (learn l cpn) = (if duration cpn = 0 then getDuration l else duration cpn)"
  "source (learn l cpn) = (if source cpn = [] then getSource l else source cpn)"
  "fps (learn l cpn) = (if fps cpn = 0 then getFPS l else fps cpn)"
  "lineAcc (learn l cpn) = lineAcc cpn"
  "lines (learn l cpn) = lines cpn"
  "pbar (learn l cpn) = pbar cpn"
  "fileOut (learn l cpn) = fileOut cpn"
  "useColors (learn l cpn) = useColors cpn"
  by (simp_all add: learn_def)

lemma progress_pbar:
  "pbar (progress t l cpn) =
     (if 3 < length (progressRx l) then
        Some (fst (Update t
          (if 0 < fps cpn then seconds (progressRx l ! 1) (progressRx l ! 2) (progressRx l ! 3) * fps cpn
           else seconds (progressRx l ! 1) (progressRx l ! 2) (progressRx l ! 3))
          (case pbar cpn of
             None \<Rightarrow> NewProgressBar t (if source cpn = [] then ''Processing'' else source cpn)
                       (if 0 < fps cpn \<and> 0 < duration cpn then duration cpn * fps cpn else duration cpn)
                       (if 0 < fps cpn then ''frames'' else ''seconds'') (useColors cpn)
           | Some b \<Rightarrow> b)))
      else pbar cpn)"
  by (simp add: progress_def Let_def case_prod_beta)

lemma progress_fileOut:
  "fileOut (progress t l cpn) =
     (if 3 < length (progressRx l) then
        fileOut cpn @ snd (Update t
          (if 0 < fps cpn then seconds (progressRx l ! 1) (progressRx l ! 2) (progressRx l ! 3) * fps cpn
           else seconds (progressRx l ! 1) (progressRx l ! 2) (progressRx l ! 3))
          (case pbar cpn of
             None \<Rightarrow> NewProgressBar t (if source cpn = [] then ''Processing'' else source cpn)
                       (if 0 < fps cpn \<and> 0 < duration cpn then duration cpn * fps cpn else duration cpn)
                       (if 0 < fps cpn then ''frames'' else ''seconds'') (useColors cpn)
           | Some b \<Rightarrow> b))
      else fileOut cpn)"
  by (simp add: progress_def Let_def case_prod_beta)

lemma Update_fields:
  "pb_current (fst (Update t c pb)) = c"
  "pb_total (fst (Update t c pb)) = pb_total pb"
  "pb_unit (fst (Update t c pb)) = pb_unit pb"
  "pb_desc (fst (Update t c pb)) = pb_desc pb"
  by (simp_all add: Update_def Let_def)

lemma progress_cong:
  assumes "duration a = duration b" "source a = source b" "fps a = fps b" "pbar a = pbar b"
    "useColors a = useColors b" "fileOut a = fileOut b"
  shows "pbar (progress t l a) = pbar (progress t l b)"
    and "fileOut (progress t l a) = fileOut (progress t l b)"
  unfolding progress_pbar progress_fileOut assms by (rule refl)+

lemma line_fields:
  assumes "plain (lineAcc cpn) (map snd bs)" and "c = CR \<or> c = LF"
  shows "lineAcc (feed (bs @ [(t, c)]) cpn) = []"
    and "duration (feed (bs @ [(t, c)]) cpn) =
           (if duration cpn = 0 then getDuration (lineAcc cpn @ map snd bs) else duration cpn)"
    and "source (feed (bs @ [(t, c)]) cpn) =
           (if source cpn = [] then getSource (lineAcc cpn @ map snd bs) else source cpn)"
    and "fps (feed (bs @ [(t, c)]) cpn) =
           (if fps cpn = 0 then getFPS (lineAcc cpn @ map snd bs) else fps cpn)"
    and "useColors (feed (bs @ [(t, c)]) cpn) = useColors cpn"
    and "pbar (feed (bs @ [(t, c)]) cpn) =
           pbar (progress t (lineAcc cpn @ map snd bs) (learn (lineAcc cpn @ map snd bs) cpn))"
    and "fileOut (feed (bs @ [(t, c)]) cpn) =
           fileOut (progress t (lineAcc cpn @ map snd bs) (learn (lineAcc cpn @ map snd bs) cpn))"
proof -
  note fl = feed_line [OF assms, of t]
  show "lineAcc (feed (bs @ [(t, c)]) cpn) = []"
    by (simp add: fl progress_keeps learn_fields)
  show "duration (feed (bs @ [(t, c)]) cpn) =
           (if duration cpn = 0 then getDuration (lineAcc cpn @ map snd bs) else duration cpn)"
    by (simp add: fl progress_keeps learn_fields)
  show "source (feed (bs @ [(t, c)]) cpn) =
           (if source cpn = [] then getSource (lineAcc cpn @ map snd bs) else source cpn)"
    by (simp add: fl progress_keeps learn_fields)
  show "fps (feed (bs @ [(t, c)]) cpn) =
           (if fps cpn = 0 then getFPS (lineAcc cpn @ map snd bs) else fps cpn)"
    by (simp add: fl progress_keeps learn_fields)
  show "useColors (feed (bs @ [(t, c)]) cpn) = useColors cpn"
    by (simp add: fl progress_keeps learn_fields)
  show "pbar (feed (bs @ [(t, c)]) cpn) =
           pbar (progress t (lineAcc cpn @ map snd bs) (learn (lineAcc cpn @ map snd bs) cpn))"
    unfolding fl by (rule progress_cong) (simp_all add: learn_fields)
  show "fileOut (feed (bs @ [(t, c)]) cpn) =
           fileOut (progress t (lineAcc cpn @ map snd bs) (learn (lineAcc cpn @ map snd bs) cpn))"
    unfolding fl by (rule progress_cong) (simp_all add: learn_fields)
qed

lemma map_snd_stamp: "map snd (stamp t s) = s"
  by (simp add: stamp_def comp_def)

lemma sample_facts:
  "plain [] fpsLine" "plain [] durationLine" "plain [] sourceLine" "plain [] timeLine"
  "plain [] zeroDurationLine" "plain [] earlierTimeLine"
  "getDuration fpsLine = 0" "getSource fpsLine = []" "getFPS fpsLine = 29" "progressRx fpsLine = []"
  "getDuration durationLine = 90" "getSource durationLine = []" "getFPS durationLine = 0"
  "progressRx durationLine = []" "durationRx durationLine \<noteq> []"
  "getSource sourceLine = ''clip.mp4''" "progressRx sourceLine = []" "sourceRx sourceLine \<noteq> []"
  "getDuration timeLine = 0" "getSource timeLine = []" "getFPS timeLine = 0"
  "progressRx timeLine = [''time=00:00:45.00'', ''00'', ''00'', ''45'']"
  "seconds ''00'' ''00'' ''45'' = 45"
  "getDuration zeroDurationLine = 0" "durationRx zeroDurationLine \<noteq> []"
  "getSource zeroDurationLine = []" "getFPS zeroDurationLine = 0" "progressRx zeroDurationLine = []"
  "getDuration earlierTimeLine = 0" "getSource earlierTimeLine = []" "getFPS earlierTimeLine = 0"
  "progressRx earlierTimeLine = [''time=00:00:30.00'', ''00'', ''00'', ''30'']"
  "seconds ''00'' ''00'' ''30'' = 30"
  by code_simp+

subsection \<open>The scenario with a frame rate\<close>

text \<open>
  Claim C3. Feed the notifier, from its initial state, the four completed lines
  \<^verbatim>\<open>29.97 fps\<close>, \<^verbatim>\<open>Duration: 00:01:30.00\<close>, \<^verbatim>\<open>from 'clip.mp4':\<close> and
  \<^verbatim>\<open>time=00:00:45.00\<close>, each ended by a line feed, the bytes arriving at any clock
  readings. Then the frame rate is 29, the duration 90 seconds, the source
  \<^verbatim>\<open>clip.mp4\<close>, and the bar counts frames: current 45 * 29 = 1305, total
  90 * 29 = 2610. Its percentage is 50, for every rounding that leaves one half and fifty
  as they are (both are doubles).
\<close>

theorem frames_scenario:
  assumes "map snd b1 = fpsLine" and "map snd b2 = durationLine"
    and "map snd b3 = sourceLine" and "map snd b4 = timeLine"
    and "rnd (1 / 2) = 1 / 2" and "rnd 50 = 50"
  shows "(let s = feed ((b1 @ [(t1, LF)]) @ (b2 @ [(t2, LF)]) @ (b3 @ [(t3, LF)]) @ (b4 @ [(t4, LF)]))
                    (NewColoredProgressNotifier u v)
          in fps s = 29 \<and> duration s = 90 \<and> source s = ''clip.mp4''
             \<and> (\<exists>pb. pbar s = Some pb \<and> pb_unit pb = ''frames'' \<and> pb_desc pb = ''clip.mp4''
                     \<and> pb_current pb = 45 * 29 \<and> pb_current pb = 1305
                     \<and> pb_total pb = 90 * 29 \<and> pb_total pb = 2610
                     \<and> percentage rnd pb = 50))"
proof -
  let ?s0 = "NewColoredProgressNotifier u v"
  let ?s1 = "feed (b1 @ [(t1, LF)]) ?s0"
  let ?s2 = "feed (b2 @ [(t2, LF)]) ?s1"
  let ?s3 = "feed (b3 @ [(t3, LF)]) ?s2"
  let ?s4 = "feed (b4 @ [(t4, LF)]) ?s3"
  have s0: "lineAcc ?s0 = []" "duration ?s0 = 0" "source ?s0 = []" "fps ?s0 = 0" "pbar ?s0 = None"
    by (simp_all add: NewColoredProgressNotifier_def)
  have p1: "plain (lineAcc ?s0) (map snd b1)" by (simp add: s0 assms sample_facts)
  note f1 = line_fields [OF p1 disjI2 [OF refl], of t1]
  have s1: "lineAcc ?s1 = []" "duration ?s1 = 0" "source ?s1 = []" "fps ?s1 = 29" "pbar ?s1 = None"
    by (simp_all add: f1 s0 assms sample_facts progress_pbar learn_fields)
  have p2: "plain (lineAcc ?s1) (map snd b2)" by (simp add: s1 assms sample_facts)
  note f2 = line_fields [OF p2 disjI2 [OF refl], of t2]
  have s2: "lineAcc ?s2 = []" "duration ?s2 = 90" "source ?s2 = []" "fps ?s2 = 29" "pbar ?s2 = None"
    by (simp_all add: f2 s1 assms sample_facts progress_pbar learn_fields)
  have p3: "plain (lineAcc ?s2) (map snd b3)" by (simp add: s2 assms sample_facts)
  note f3 = line_fields [OF p3 disjI2 [OF refl], of t3]
  have s3: "lineAcc ?s3 = []" "duration ?s3 = 90" "source ?s3 = ''clip.mp4''" "fps ?s3 = 29"
    "pbar ?s3 = None"
    by (simp_all add: f3 s2 assms sample_facts progress_pbar learn_fields)
  have p4: "plain (lineAcc ?s3) (map snd b4)" by (simp add: s3 assms sample_facts)
  note f4 = line_fields [OF p4 disjI2 [OF refl], of t4]
  have s4: "duration ?s4 = 90" "source ?s4 = ''clip.mp4''" "fps ?s4 = 29"
    by (simp_all add: f4 s3 assms sample_facts)
  obtain pb where pb: "pbar ?s4 = Some pb" "pb_unit pb = ''frames''" "pb_desc pb = ''clip.mp4''"
    "pb_current pb = 1305" "pb_total pb = 2610"
    by (simp add: f4 s3 assms sample_facts progress_pbar learn_fields Update_fields NewProgressBar_def)
  have pct: "percentage rnd pb = 50"
    by (simp add: percentage_def pb assms)
  have whole: "feed ((b1 @ [(t1, LF)]) @ (b2 @ [(t2, LF)]) @ (b3 @ [(t3, LF)]) @ (b4 @ [(t4, LF)])) ?s0 = ?s4"
    by (simp add: feed_def)
  show ?thesis
    unfolding Let_def whole using s4 pb pct by simp
qed

theorem frames_scenario_witness:
  "map snd (stamp 1 fpsLine) = fpsLine \<and> map snd (stamp 2 durationLine) = durationLine
   \<and> map snd (stamp 3 sourceLine) = sourceLine \<and> map snd (stamp 4 timeLine) = timeLine
   \<and> id (1 / 2 :: rat) = 1 / 2 \<and> id (50 :: rat) = 50
   \<and> (let s = feed ((stamp 1 fpsLine @ [(1, LF)]) @ (stamp 2 durationLine @ [(2, LF)])
                     @ (stamp 3 sourceLine @ [(3, LF)]) @ (stamp 4 timeLine @ [(4, LF)]))
                (NewColoredProgressNotifier False False)
       in fps s = 29 \<and> duration s = 90 \<and> source s = ''clip.mp4''
          \<and> (\<exists>pb. pbar s = Some pb \<and> pb_unit pb = ''frames'' \<and> pb_desc pb = ''clip.mp4''
                  \<and> pb_current pb = 45 * 29 \<and> pb_current pb = 1305
                  \<and> pb_total pb = 90 * 29 \<and> pb_total pb = 2610
                  \<and> percentage id pb = 50))"
proof -
  have r: "id (1 / 2 :: rat) = 1 / 2" "id (50 :: rat) = 50" by simp_all
  note t = frames_scenario [OF map_snd_stamp map_snd_stamp map_snd_stamp map_snd_stamp r,
      of 1 1 2 2 3 3 4 4 False False]
  from t r show ?thesis
    by (simp only: map_snd_stamp simp_thms)
qed

subsection \<open>Facts are kept once known\<close>

lemma ProcessChar_kept:
  "duration cpn \<noteq> 0 \<Longrightarrow> duration (ProcessChar t c cpn) = duration cpn"
  "source cpn \<noteq> [] \<Longrightarrow> source (ProcessChar t c cpn) = source cpn"
  "fps cpn \<noteq> 0 \<Longrightarrow> fps (ProcessChar t c cpn) = fps cpn"
  by (simp_all add: ProcessChar_def newline_def Let_def progress_keeps split: option.split)

lemma feed_kept:
  "duration cpn \<noteq> 0 \<Longrightarrow> duration (feed bs cpn) = duration cpn"
  "source cpn \<noteq> [] \<Longrightarrow> source (feed bs cpn) = source cpn"
  "fps cpn \<noteq> 0 \<Longrightarrow> fps (feed bs cpn) = fps cpn"
  unfolding feed_def
  by (induction bs arbitrary: cpn; simp add: ProcessChar_kept split: prod.split)+

lemma ProcessChar_learns:
  assumes "c = CR \<or> c = LF"
  shows "duration cpn = 0 \<Longrightarrow> duration (ProcessChar t c cpn) = getDuration (lineAcc cpn)"
    and "source cpn = [] \<Longrightarrow> source (ProcessChar t c cpn) = getSource (lineAcc cpn)"
    and "fps cpn = 0 \<Longrightarrow> fps (ProcessChar t c cpn) = getFPS (lineAcc cpn)"
  using assms
  by (simp_all add: ProcessChar_terminator progress_keeps learn_fields)

lemma Base_nonempty: "Base p \<noteq> []"
  by (simp add: Base_def Let_def)

lemma getSource_nonempty: "sourceRx l \<noteq> [] \<Longrightarrow> getSource l \<noteq> []"
proof (induction l rule: sourceRx.induct)
  case 1
  then show ?case by simp
next
  case (2 c cs)
  show ?case
  proof (cases "HasPrefix (c # cs) fromQuote")
    case False
    with 2 show ?thesis by (simp add: getSource_def Let_def)
  next
    case True
    show ?thesis
    proof (cases "greedyQuoteColon (takeWhile (\<lambda>x. x \<noteq> LF) (drop 6 (c # cs)))")
      case None
      with True 2 show ?thesis by (simp add: getSource_def Let_def)
    next
      case (Some g)
      with True show ?thesis
        by (simp add: getSource_def Let_def Base_nonempty)
    qed
  qed
qed

text \<open>
  Against claim C4 as it is written. The line \<^verbatim>\<open>Duration: 00:00:00.04\<close> (a still
  image among the inputs) matches the duration pattern and parses, to zero seconds; the later line
  \<^verbatim>\<open>Duration: 00:01:30.00\<close> matches too. After the two lines the duration is 90: the
  field carries the value of the later matching line, not that of the first.
\<close>

theorem first_match_counterexample:
  "durationRx zeroDurationLine \<noteq> [] \<and> durationRx durationLine \<noteq> []
   \<and> getDuration zeroDurationLine = 0 \<and> getDuration durationLine = 90
   \<and> duration (feed zeroFirstRun (NewColoredProgressNotifier False False)) = 90
   \<and> duration (feed zeroFirstRun (NewColoredProgressNotifier False False))
       \<noteq> getDuration zeroDurationLine"
proof -
  let ?s0 = "NewColoredProgressNotifier False False"
  let ?s1 = "feed (stamp 1 zeroDurationLine @ [(1, LF)]) ?s0"
  have s0: "lineAcc ?s0 = []" "duration ?s0 = 0"
    by (simp_all add: NewColoredProgressNotifier_def)
  have p1: "plain (lineAcc ?s0) (map snd (stamp 1 zeroDurationLine))"
    by (simp add: s0 sample_facts map_snd_stamp)
  note f1 = line_fields [OF p1 disjI2 [OF refl], of 1]
  have s1: "lineAcc ?s1 = []" "duration ?s1 = 0"
    by (simp_all add: f1 s0 sample_facts map_snd_stamp)
  have p2: "plain (lineAcc ?s1) (map snd (stamp 2 durationLine))"
    by (simp add: s1 sample_facts map_snd_stamp)
  note f2 = line_fields [OF p2 disjI2 [OF refl], of 2]
  have "duration (feed (stamp 2 durationLine @ [(2, LF)]) ?s1) = 90"
    by (simp add: f2 s1 sample_facts map_snd_stamp)
  then have "duration (feed zeroFirstRun ?s0) = 90"
    by (simp add: zeroFirstRun_def feed_def)
  then show ?thesis
    by (simp add: sample_facts)
qed

text \<open>
  Claim C4, amended. A session field that holds a known value (a duration or a frame rate
  other than zero, a source name other than the empty one) is never changed by any bytes
  that follow. While a field is unknown, each line terminator gives it the value parsed
  from the completed line; for the source that value is never empty when the line
  matches, so the first matching line wins; for the duration and the frame rate a line
  that parses to zero leaves the field unknown, and a later line may still set it.
\<close>

theorem known_field_kept:
  "(duration cpn \<noteq> 0 \<longrightarrow> duration (feed bs cpn) = duration cpn)
   \<and> (source cpn \<noteq> [] \<longrightarrow> source (feed bs cpn) = source cpn)
   \<and> (fps cpn \<noteq> 0 \<longrightarrow> fps (feed bs cpn) = fps cpn)
   \<and> ((c = CR \<or> c = LF) \<and> duration cpn = 0 \<longrightarrow>
        duration (ProcessChar t c cpn) = getDuration (lineAcc cpn))
   \<and> ((c = CR \<or> c = LF) \<and> source cpn = [] \<longrightarrow>
        source (ProcessChar t c cpn) = getSource (lineAcc cpn))
   \<and> ((c = CR \<or> c = LF) \<and> fps cpn = 0 \<longrightarrow>
        fps (ProcessChar t c cpn) = getFPS (lineAcc cpn))
   \<and> (sourceRx l \<noteq> [] \<longrightarrow> getSource l \<noteq> [])"
  by (simp add: feed_kept ProcessChar_learns getSource_nonempty)

theorem known_field_kept_witness:
  "duration knownState \<noteq> 0 \<and> source knownState \<noteq> [] \<and> fps knownState \<noteq> 0
   \<and> duration (feed zeroFirstRun knownState) = 120
   \<and> source (feed zeroFirstRun knownState) = ''clip.mp4''
   \<and> fps (feed zeroFirstRun knownState) = 29
   \<and> (LF = CR \<or> LF = LF) \<and> duration pendingState = 0 \<and> source pendingState = []
   \<and> fps pendingState = 0
   \<and> duration (ProcessChar 5 LF pendingState) = 90
   \<and> source (ProcessChar 5 LF pendingState) = []
   \<and> fps (ProcessChar 5 LF pendingState) = 0
   \<and> sourceRx sourceLine \<noteq> [] \<and> getSource sourceLine \<noteq> []"
proof -
  have k: "duration knownState = 120" "source knownState = ''clip.mp4''" "fps knownState = 29"
    by (simp_all add: knownState_def)
  have p: "duration pendingState = 0" "source pendingState = []" "fps pendingState = 0"
    "lineAcc pendingState = durationLine"
    by (simp_all add: pendingState_def NewColoredProgressNotifier_def)
  from known_field_kept [of knownState zeroFirstRun LF 5 sourceLine] k
  have a: "duration (feed zeroFirstRun knownState) = 120
      \<and> source (feed zeroFirstRun knownState) = ''clip.mp4''
      \<and> fps (feed zeroFirstRun knownState) = 29 \<and> getSource sourceLine \<noteq> []"
    by (simp add: sample_facts)
  from known_field_kept [of pendingState zeroFirstRun LF 5 sourceLine] p
  have b: "duration (ProcessChar 5 LF pendingState) = 90
      \<and> source (ProcessChar 5 LF pendingState) = []
      \<and> fps (ProcessChar 5 LF pendingState) = 0"
    by (simp add: sample_facts)
  from a b k p show ?thesis by (simp add: sample_facts)
qed

subsection \<open>The percentage from one update to the next\<close>

lemma backwardsRun_output:
  "fileOut (feed backwardsRun (NewColoredProgressNotifier False False))
     = [Render 2000000000 firstBar, Render 3000000000 secondBar]"
proof -
  let ?s0 = "NewColoredProgressNotifier False False"
  let ?s1 = "feed (stamp 1000000000 durationLine @ [(1000000000, LF)]) ?s0"
  let ?s2 = "feed (stamp 2000000000 timeLine @ [(2000000000, LF)]) ?s1"
  let ?s3 = "feed (stamp 3000000000 earlierTimeLine @ [(3000000000, LF)]) ?s2"
  have s0: "lineAcc ?s0 = []" "duration ?s0 = 0" "source ?s0 = []" "fps ?s0 = 0" "pbar ?s0 = None"
    "fileOut ?s0 = []" "useColors ?s0 = False"
    by (simp_all add: NewColoredProgressNotifier_def)
  have p1: "plain (lineAcc ?s0) (map snd (stamp 1000000000 durationLine))"
    by (simp add: s0 sample_facts map_snd_stamp)
  note f1 = line_fields [OF p1 disjI2 [OF refl], of 1000000000]
  have s1: "lineAcc ?s1 = []" "duration ?s1 = 90" "source ?s1 = []" "fps ?s1 = 0" "pbar ?s1 = None"
    "fileOut ?s1 = []" "useColors ?s1 = False"
    by (simp_all add: f1 s0 sample_facts map_snd_stamp progress_pbar progress_fileOut learn_fields)
  have p2: "plain (lineAcc ?s1) (map snd (stamp 2000000000 timeLine))"
    by (simp add: s1 sample_facts map_snd_stamp)
  note f2 = line_fields [OF p2 disjI2 [OF refl], of 2000000000]
  have s2: "lineAcc ?s2 = []" "duration ?s2 = 90" "source ?s2 = []" "fps ?s2 = 0"
    "pbar ?s2 = Some firstBar" "fileOut ?s2 = [Render 2000000000 firstBar]" "useColors ?s2 = False"
    by (simp_all add: f2 s1 sample_facts map_snd_stamp progress_pbar progress_fileOut learn_fields
        Update_def NewProgressBar_def Let_def Sub_def maxDuration_def minDuration_def
        Millisecond_def render_def firstBar_def)
  have p3: "plain (lineAcc ?s2) (map snd (stamp 3000000000 earlierTimeLine))"
    by (simp add: s2 sample_facts map_snd_stamp)
  note f3 = line_fields [OF p3 disjI2 [OF refl], of 3000000000]
  have s3: "fileOut ?s3 = [Render 2000000000 firstBar, Render 3000000000 secondBar]"
    by (simp add: f3 s2 sample_facts map_snd_stamp progress_fileOut learn_fields
        Update_def Let_def Sub_def maxDuration_def minDuration_def
        render_def firstBar_def secondBar_def)
  have whole: "feed backwardsRun ?s0 = ?s3"
    by (simp add: backwardsRun_def feed_def)
  show ?thesis
    unfolding whole by (rule s3)
qed

text \<open>The calls of a run, line by line.\<close>

lemma updatesOf_append:
  "updatesOf (as @ bs) s = updatesOf as s @ updatesOf bs (feed as s)"
proof (induction as arbitrary: s)
  case Nil
  show ?case by (simp add: feed_def)
next
  case (Cons a as)
  obtain t c where a: "a = (t, c)" by (cases a)
  have f: "feed (a # as) s = feed as (ProcessChar t c s)" by (simp add: feed_def a)
  show ?case unfolding f by (simp add: a Cons.IH)
qed

lemma updatesOf_plain:
  "plain (lineAcc s) (map snd bs) \<Longrightarrow> updatesOf bs s = []"
proof (induction bs arbitrary: s)
  case Nil
  show ?case by simp
next
  case (Cons b bs)
  obtain t c where b: "b = (t, c)" by (cases b)
  from Cons.prems have c: "c \<noteq> CR" "c \<noteq> LF" "\<not> HasSuffix (lineAcc s @ [c]) promptSuffix"
    and rest: "plain (lineAcc s @ [c]) (map snd bs)"
    by (simp_all add: b)
  have "lineAcc (ProcessChar t c s) = lineAcc s @ [c]"
    by (simp add: ProcessChar_plain [OF c])
  with rest have "updatesOf bs (ProcessChar t c s) = []" by (simp add: Cons.IH)
  with c show ?case by (simp add: b)
qed

lemma updatesOf_line:
  assumes "plain (lineAcc s) (map snd bs)" and "c = CR \<or> c = LF"
  shows "updatesOf (bs @ [(t, c)]) s =
           (if 3 < length (progressRx (lineAcc s @ map snd bs)) then
              (case pbar (feed (bs @ [(t, c)]) s) of
                 Some pb \<Rightarrow>
                   [(seconds (progressRx (lineAcc s @ map snd bs) ! 1)
                       (progressRx (lineAcc s @ map snd bs) ! 2)
                       (progressRx (lineAcc s @ map snd bs) ! 3), pb)]
               | None \<Rightarrow> [])
            else [])"
proof -
  have l: "lineAcc (feed bs s) = lineAcc s @ map snd bs"
    by (simp add: feed_plain [OF assms(1)])
  have f: "feed (bs @ [(t, c)]) s = ProcessChar t c (feed bs s)"
    by (simp add: feed_def)
  show ?thesis
    unfolding updatesOf_append updatesOf_plain [OF assms(1)] f
    using assms(2) by (simp add: l split: option.split)
qed

lemma forwardsRun_updates:
  "updatesOf forwardsRun (NewColoredProgressNotifier False False) = [(30, earlyBar), (45, lateBar)]"
proof -
  let ?s0 = "NewColoredProgressNotifier False False"
  let ?l1 = "stamp 1000000000 durationLine @ [(1000000000, LF)]"
  let ?l2 = "stamp 2000000000 earlierTimeLine @ [(2000000000, LF)]"
  let ?l3 = "stamp 3000000000 timeLine @ [(3000000000, LF)]"
  let ?s1 = "feed ?l1 ?s0"
  let ?s2 = "feed ?l2 ?s1"
  let ?s3 = "feed ?l3 ?s2"
  have s0: "lineAcc ?s0 = []" "duration ?s0 = 0" "source ?s0 = []" "fps ?s0 = 0" "pbar ?s0 = None"
    "useColors ?s0 = False"
    by (simp_all add: NewColoredProgressNotifier_def)
  have p1: "plain (lineAcc ?s0) (map snd (stamp 1000000000 durationLine))"
    by (simp add: s0 sample_facts map_snd_stamp)
  note f1 = line_fields [OF p1 disjI2 [OF refl], of 1000000000]
  have s1: "lineAcc ?s1 = []" "duration ?s1 = 90" "source ?s1 = []" "fps ?s1 = 0" "pbar ?s1 = None"
    "useColors ?s1 = False"
    by (simp_all add: f1 s0 sample_facts map_snd_stamp progress_pbar learn_fields)
  have u1: "updatesOf ?l1 ?s0 = []"
    by (simp add: updatesOf_line [OF p1 disjI2 [OF refl]] s0 sample_facts map_snd_stamp)
  have p2: "plain (lineAcc ?s1) (map snd (stamp 2000000000 earlierTimeLine))"
    by (simp add: s1 sample_facts map_snd_stamp)
  note f2 = line_fields [OF p2 disjI2 [OF refl], of 2000000000]
  have s2: "lineAcc ?s2 = []" "duration ?s2 = 90" "source ?s2 = []" "fps ?s2 = 0"
    "pbar ?s2 = Some earlyBar" "useColors ?s2 = False"
    by (simp_all add: f2 s1 sample_facts map_snd_stamp progress_pbar learn_fields
        Update_def NewProgressBar_def Let_def Sub_def maxDuration_def minDuration_def
        Millisecond_def firstBar_def earlyBar_def)
  have u2: "updatesOf ?l2 ?s1 = [(30, earlyBar)]"
    by (simp add: updatesOf_line [OF p2 disjI2 [OF refl]] s1 s2 sample_facts map_snd_stamp)
  have p3: "plain (lineAcc ?s2) (map snd (stamp 3000000000 timeLine))"
    by (simp add: s2 sample_facts map_snd_stamp)
  note f3 = line_fields [OF p3 disjI2 [OF refl], of 3000000000]
  have s3: "pbar ?s3 = Some lateBar"
    by (simp add: f3 s2 sample_facts map_snd_stamp progress_pbar learn_fields
        Update_def Let_def Sub_def maxDuration_def minDuration_def
        firstBar_def earlyBar_def lateBar_def)
  have u3: "updatesOf ?l3 ?s2 = [(45, lateBar)]"
    by (simp add: updatesOf_line [OF p3 disjI2 [OF refl]] s2 s3 sample_facts map_snd_stamp)
  have "updatesOf forwardsRun ?s0 = updatesOf ?l1 ?s0 @ updatesOf ?l2 ?s1 @ updatesOf ?l3 ?s2"
    unfolding forwardsRun_def updatesOf_append feed_append by (rule refl)
  then show ?thesis by (simp only: u1 u2 u3 append_Nil append_Cons)
qed

lemma backwardsRun_updates:
  "updatesOf backwardsRun (NewColoredProgressNotifier False False)
     = [(45, firstBar), (30, secondBar)]"
proof -
  let ?s0 = "NewColoredProgressNotifier False False"
  let ?l1 = "stamp 1000000000 durationLine @ [(1000000000, LF)]"
  let ?l2 = "stamp 2000000000 timeLine @ [(2000000000, LF)]"
  let ?l3 = "stamp 3000000000 earlierTimeLine @ [(3000000000, LF)]"
  let ?s1 = "feed ?l1 ?s0"
  let ?s2 = "feed ?l2 ?s1"
  let ?s3 = "feed ?l3 ?s2"
  have s0: "lineAcc ?s0 = []" "duration ?s0 = 0" "source ?s0 = []" "fps ?s0 = 0" "pbar ?s0 = None"
    "useColors ?s0 = False"
    by (simp_all add: NewColoredProgressNotifier_def)
  have p1: "plain (lineAcc ?s0) (map snd (stamp 1000000000 durationLine))"
    by (simp add: s0 sample_facts map_snd_stamp)
  note f1 = line_fields [OF p1 disjI2 [OF refl], of 1000000000]
  have s1: "lineAcc ?s1 = []" "duration ?s1 = 90" "source ?s1 = []" "fps ?s1 = 0" "pbar ?s1 = None"
    "useColors ?s1 = False"
    by (simp_all add: f1 s0 sample_facts map_snd_stamp progress_pbar learn_fields)
  have u1: "updatesOf ?l1 ?s0 = []"
    by (simp add: updatesOf_line [OF p1 disjI2 [OF refl]] s0 sample_facts map_snd_stamp)
  have p2: "plain (lineAcc ?s1) (map snd (stamp 2000000000 timeLine))"
    by (simp add: s1 sample_facts map_snd_stamp)
  note f2 = line_fields [OF p2 disjI2 [OF refl], of 2000000000]
  have s2: "lineAcc ?s2 = []" "duration ?s2 = 90" "source ?s2 = []" "fps ?s2 = 0"
    "pbar ?s2 = Some firstBar" "useColors ?s2 = False"
    by (simp_all add: f2 s1 sample_facts map_snd_stamp progress_pbar learn_fields
        Update_def NewProgressBar_def Let_def Sub_def maxDuration_def minDuration_def
        Millisecond_def firstBar_def)
  have u2: "updatesOf ?l2 ?s1 = [(45, firstBar)]"
    by (simp add: updatesOf_line [OF p2 disjI2 [OF refl]] s1 s2 sample_facts map_snd_stamp)
  have p3: "plain (lineAcc ?s2) (map snd (stamp 3000000000 earlierTimeLine))"
    by (simp add: s2 sample_facts map_snd_stamp)
  note f3 = line_fields [OF p3 disjI2 [OF refl], of 3000000000]
  have s3: "pbar ?s3 = Some secondBar"
    by (simp add: f3 s2 sample_facts map_snd_stamp progress_pbar learn_fields
        Update_def Let_def Sub_def maxDuration_def minDuration_def
        firstBar_def secondBar_def)
  have u3: "updatesOf ?l3 ?s2 = [(30, secondBar)]"
    by (simp add: updatesOf_line [OF p3 disjI2 [OF refl]] s2 s3 sample_facts map_snd_stamp)
  have "updatesOf backwardsRun ?s0 = updatesOf ?l1 ?s0 @ updatesOf ?l2 ?s1 @ updatesOf ?l3 ?s2"
    unfolding backwardsRun_def updatesOf_append feed_append by (rule refl)
  then show ?thesis by (simp only: u1 u2 u3 append_Nil append_Cons)
qed

text \<open>
  Against claim C8 as it is written. With a duration of 90 seconds, the position line
  \<^verbatim>\<open>time=00:00:45.00\<close> followed a second later by \<^verbatim>\<open>time=00:00:30.00\<close> gives two
  updates and two redraws of one bar, total 90 both times: the first at 50 percent, the second at a third
  of a hundred. The percentage has gone down from one update to the next.
\<close>

theorem percentage_counterexample:
  "fileOut (feed backwardsRun (NewColoredProgressNotifier False False))
     = [Render 2000000000 firstBar, Render 3000000000 secondBar]
   \<and> updatesOf backwardsRun (NewColoredProgressNotifier False False)
     = [(45, firstBar), (30, secondBar)]
   \<and> pb_total firstBar = pb_total secondBar
   \<and> percentage id firstBar = 50 \<and> percentage id secondBar = 100 / 3
   \<and> \<not> percentage id firstBar \<le> percentage id secondBar"
  by (simp add: backwardsRun_output backwardsRun_updates)
    (simp add: percentage_def firstBar_def secondBar_def)

text \<open>Positions, durations and frame rates are never negative: the patterns have no sign.\<close>

lemma digitVal_nonneg: "isDigit c \<Longrightarrow> 0 \<le> digitVal c"
  by (simp add: isDigit_def digitVal_def)

lemma foldl_decimal_nonneg:
  "0 \<le> a \<Longrightarrow> list_all isDigit ds \<Longrightarrow> 0 \<le> foldl (\<lambda>a c. 10 * a + digitVal c) a ds"
  by (induction ds arbitrary: a) (simp_all add: digitVal_nonneg)

lemma decimal_nonneg: "list_all isDigit ds \<Longrightarrow> 0 \<le> decimal ds"
  by (simp add: decimal_def foldl_decimal_nonneg)

lemma digit_not_minus: "isDigit c \<Longrightarrow> c \<noteq> CHR ''-''"
  by (auto simp add: isDigit_def)

lemma Atoi_nonneg:
  assumes "s = [] \<or> hd s \<noteq> CHR ''-''"
  shows "0 \<le> (case Atoi s of Some v \<Rightarrow> v | None \<Rightarrow> 0)"
  using assms by (auto simp add: Atoi_def Let_def decimal_nonneg)

lemma digit2_take: "digit2 s \<Longrightarrow> hd (take 2 s) \<noteq> CHR ''-''"
  by (auto simp add: digit2_def digit_not_minus split: list.splits)

lemma seconds_nonneg:
  assumes "digit2 a" "digit2 b" "digit2 c"
  shows "0 \<le> seconds (take 2 a) (take 2 b) (take 2 c)"
proof -
  have "0 \<le> (case Atoi (take 2 x) of Some v \<Rightarrow> v | None \<Rightarrow> 0)" if "digit2 x" for x
    using Atoi_nonneg [of "take 2 x"] digit2_take [OF that] by simp
  with assms show ?thesis by (simp add: seconds_def Let_def)
qed

lemma clockAt_groups:
  "clockAt s = Some g \<Longrightarrow>
   g = [take 2 s, take 2 (drop 3 s), take 2 (drop 6 s)]
   \<and> digit2 s \<and> digit2 (drop 3 s) \<and> digit2 (drop 6 s)"
  by (simp add: clockAt_def split: if_splits)

lemma labelledClock_nonneg:
  "3 < length (labelledClock label l) \<Longrightarrow>
   0 \<le> seconds (labelledClock label l ! 1) (labelledClock label l ! 2) (labelledClock label l ! 3)"
proof (induction label l rule: labelledClock.induct)
  case (1 label)
  then show ?case by simp
next
  case (2 label c cs)
  show ?case
  proof (cases "HasPrefix (c # cs) label")
    case False
    with 2 show ?thesis by simp
  next
    case True
    show ?thesis
    proof (cases "clockAt (drop (length label) (c # cs))")
      case None
      with True 2 show ?thesis by simp
    next
      case (Some g)
      from clockAt_groups [OF Some] True Some show ?thesis
        by (simp add: seconds_nonneg)
    qed
  qed
qed

lemma position_nonneg:
  "3 < length (progressRx l) \<Longrightarrow>
   0 \<le> seconds (progressRx l ! 1) (progressRx l ! 2) (progressRx l ! 3)"
  unfolding progressRx_def by (rule labelledClock_nonneg)

lemma getDuration_nonneg: "0 \<le> getDuration l"
  using labelledClock_nonneg [of "''Duration: ''" l]
  by (simp add: getDuration_def durationRx_def Let_def)

lemma ParseFloat_nonneg: "ParseFloat s = Some q \<Longrightarrow> 0 \<le> q"
proof -
  have ip: "list_all isDigit (takeWhile isDigit s)"
    by (simp add: list_all_iff) (meson set_takeWhileD)
  assume "ParseFloat s = Some q"
  then show ?thesis
    using decimal_nonneg [OF ip]
    by (auto simp add: ParseFloat_def Let_def decimal_nonneg ip split: if_splits)
qed

lemma getFPS_nonneg: "0 \<le> getFPS l"
  by (auto simp add: getFPS_def Let_def toInt_def dest: ParseFloat_nonneg split: option.split)

text \<open>
  For a fixed total that is not negative, the percentage does not go down when the
  current value does not go down, for every monotone rounding of the two float operations.
\<close>

lemma percentage_mono:
  assumes "mono rnd" and "pb_total pb1 = pb_total pb2" and "0 \<le> pb_total pb1"
    and "pb_current pb1 \<le> pb_current pb2"
  shows "percentage rnd pb1 \<le> percentage rnd pb2"
proof (cases "pb_total pb1 = 0")
  case True
  with assms(2) show ?thesis by (simp add: percentage_def)
next
  case False
  with assms(3) have pos: "0 < (of_int (pb_total pb1) :: rat)" by simp
  have "(of_int (pb_current pb1) :: rat) / of_int (pb_total pb1)
          \<le> of_int (pb_current pb2) / of_int (pb_total pb1)"
    using assms(4) pos by (simp add: divide_right_mono)
  then have "rnd (of_int (pb_current pb1) / of_int (pb_total pb1))
          \<le> rnd (of_int (pb_current pb2) / of_int (pb_total pb1))"
    using assms(1) by (rule monoD [rotated])
  then have "rnd (of_int (pb_current pb1) / of_int (pb_total pb1)) * 100
          \<le> rnd (of_int (pb_current pb2) / of_int (pb_total pb1)) * 100"
    by simp
  then have "rnd (rnd (of_int (pb_current pb1) / of_int (pb_total pb1)) * 100)
          \<le> rnd (rnd (of_int (pb_current pb2) / of_int (pb_total pb1)) * 100)"
    using assms(1) by (rule monoD [rotated])
  with False assms(2) show ?thesis by (simp add: percentage_def)
qed

lemma other_byte_fields:
  assumes "c \<noteq> CR" "c \<noteq> LF"
  shows "fps (ProcessChar t c s) = fps s"
    and "duration (ProcessChar t c s) = duration s"
    and "pbar (ProcessChar t c s) = pbar s"
  using assms
  by (simp_all add: ProcessChar_def newline_def Let_def split: option.split)

lemma terminator_fields:
  assumes "c = CR \<or> c = LF"
  shows "fps (ProcessChar t c s) = (if fps s = 0 then getFPS (lineAcc s) else fps s)"
    and "duration (ProcessChar t c s) =
           (if duration s = 0 then getDuration (lineAcc s) else duration s)"
    and "pbar (ProcessChar t c s) = pbar (progress t (lineAcc s) (learn (lineAcc s) s))"
proof -
  note pc = ProcessChar_terminator [OF assms, of t s]
  show "fps (ProcessChar t c s) = (if fps s = 0 then getFPS (lineAcc s) else fps s)"
    by (simp add: pc progress_keeps learn_fields)
  show "duration (ProcessChar t c s) =
           (if duration s = 0 then getDuration (lineAcc s) else duration s)"
    by (simp add: pc progress_keeps learn_fields)
  show "pbar (ProcessChar t c s) = pbar (progress t (lineAcc s) (learn (lineAcc s) s))"
    unfolding pc by (rule progress_cong) (simp_all add: learn_fields)
qed

lemma factor_grows:
  assumes "0 \<le> fps s" and "c = CR \<or> c = LF"
  shows "(if 0 < fps s then fps s else 1)
       \<le> (if 0 < fps (ProcessChar t c s) then fps (ProcessChar t c s) else 1)"
    and "0 \<le> fps (ProcessChar t c s)"
  using assms getFPS_nonneg [of "lineAcc s"]
  by (auto simp add: terminator_fields(1) [OF assms(2)])

lemma step_quiet:
  assumes "tracked s prev"
    and "\<not> ((c = CR \<or> c = LF) \<and> 3 < length (progressRx (lineAcc s)))"
  shows "tracked (ProcessChar t c s) prev"
proof (cases "c = CR \<or> c = LF")
  case False
  then have "c \<noteq> CR" "c \<noteq> LF" by simp_all
  note o = other_byte_fields [OF this, of t s]
  show ?thesis
    using assms(1) unfolding tracked_def o by simp
next
  case True
  with assms(2) have nomatch: "\<not> 3 < length (progressRx (lineAcc s))" by simp
  let ?s' = "ProcessChar t c s"
  have f: "0 \<le> fps s" "0 \<le> duration s" using assms(1) by (simp_all add: tracked_def)
  have pb: "pbar ?s' = pbar s"
    by (simp add: terminator_fields(3) [OF True] progress_pbar nomatch learn_fields)
  have d: "0 \<le> duration ?s'"
    using f getDuration_nonneg [of "lineAcc s"] by (simp add: terminator_fields(2) [OF True])
  note g = factor_grows [OF f(1) True, of t]
  show ?thesis
  proof (cases prev)
    case None
    with assms(1) pb d g show ?thesis by (simp add: tracked_def)
  next
    case (Some x)
    obtain p b where x: "x = (p, b)" by (cases x)
    from assms(1) Some x have old: "pbar s = Some b" "0 \<le> p" "0 \<le> pb_total b"
      "pb_current b \<le> p * (if 0 < fps s then fps s else 1)"
      by (simp_all add: tracked_def)
    have "p * (if 0 < fps s then fps s else 1)
        \<le> p * (if 0 < fps ?s' then fps ?s' else 1)"
      using old(2) g(1) by (rule mult_left_mono [rotated])
    with old(4) have "pb_current b \<le> p * (if 0 < fps ?s' then fps ?s' else 1)" by simp
    with old pb d g(2) Some x show ?thesis by (simp add: tracked_def)
  qed
qed

lemma step_update:
  assumes "tracked s prev" and "mono rnd"
    and "c = CR \<or> c = LF" and "3 < length (progressRx (lineAcc s))"
  shows "\<exists>b2. pbar (ProcessChar t c s) = Some b2
           \<and> tracked (ProcessChar t c s)
                (Some (seconds (progressRx (lineAcc s) ! 1) (progressRx (lineAcc s) ! 2)
                         (progressRx (lineAcc s) ! 3), b2))
           \<and> (\<forall>x. prev = Some x \<longrightarrow>
                 steady rnd x (seconds (progressRx (lineAcc s) ! 1) (progressRx (lineAcc s) ! 2)
                         (progressRx (lineAcc s) ! 3), b2))"
proof -
  let ?s' = "ProcessChar t c s"
  let ?P = "seconds (progressRx (lineAcc s) ! 1) (progressRx (lineAcc s) ! 2)
              (progressRx (lineAcc s) ! 3)"
  let ?k = "if 0 < fps s then fps s else 1"
  let ?k' = "if 0 < fps ?s' then fps ?s' else 1"
  have f: "0 \<le> fps s" "0 \<le> duration s" using assms(1) by (simp_all add: tracked_def)
  have P: "0 \<le> ?P" by (rule position_nonneg [OF assms(4)])
  have d: "0 \<le> duration ?s'"
    using f getDuration_nonneg [of "lineAcc s"] by (simp add: terminator_fields(2) [OF assms(3)])
  note g = factor_grows [OF f(1) assms(3), of t]
  note tf = terminator_fields [OF assms(3), of t s]
  let ?L = "learn (lineAcc s) s"
  have fL: "fps ?s' = fps ?L" "duration ?s' = duration ?L"
    by (simp_all add: tf learn_fields)
  have dL: "0 \<le> duration ?L" "0 \<le> fps ?L" using d g(2) fL by simp_all
  define pb0 where "pb0 = (case pbar ?L of
      None \<Rightarrow> NewProgressBar t (if source ?L = [] then ''Processing'' else source ?L)
                (if 0 < fps ?L \<and> 0 < duration ?L then duration ?L * fps ?L else duration ?L)
                (if 0 < fps ?L then ''frames'' else ''seconds'') (useColors ?L)
    | Some b \<Rightarrow> b)"
  define b2 where "b2 = fst (Update t (if 0 < fps ?L then ?P * fps ?L else ?P) pb0)"
  have pb: "pbar ?s' = Some b2"
    unfolding tf(3) progress_pbar b2_def pb0_def using assms(4) by simp
  have cur: "pb_current b2 = ?P * ?k'" and tot: "pb_total b2 = pb_total pb0"
    by (simp_all add: b2_def Update_fields fL)
  have tot0: "0 \<le> pb_total pb0" if "pbar s = None"
    using that dL by (simp add: pb0_def NewProgressBar_def learn_fields(6))
  show ?thesis
  proof (cases prev)
    case None
    with assms(1) have "pbar s = None" by (simp add: tracked_def)
    with tot0 tot have "0 \<le> pb_total b2" by simp
    with pb P d g(2) cur None show ?thesis by (simp add: tracked_def)
  next
    case (Some x)
    obtain p b where x: "x = (p, b)" by (cases x)
    from assms(1) Some x have old: "pbar s = Some b" "0 \<le> p" "0 \<le> pb_total b"
      "pb_current b \<le> p * ?k"
      by (simp_all add: tracked_def)
    have same: "pb_total b2 = pb_total b"
      using old(1) tot by (simp add: pb0_def learn_fields(6))
    have st: "steady rnd x (?P, b2)"
    proof -
      have "percentage rnd b \<le> percentage rnd b2" if le: "p \<le> ?P"
      proof -
        have "p * ?k \<le> p * ?k'" using old(2) g(1) by (rule mult_left_mono [rotated])
        also have "\<dots> \<le> ?P * ?k'"
          using le g(2) by (intro mult_right_mono) auto
        finally have "pb_current b \<le> pb_current b2" using old(4) cur by simp
        with assms(2) same old(3) show ?thesis
          by (intro percentage_mono) simp_all
      qed
      with same show ?thesis by (simp add: steady_def x)
    qed
    have "tracked ?s' (Some (?P, b2))"
      using pb P d g(2) cur same old(3) by (simp add: tracked_def)
    with pb st Some show ?thesis by simp
  qed
qed

lemma updates_steady:
  assumes "mono rnd"
  shows "tracked s prev \<Longrightarrow>
         successively (steady rnd) ((case prev of None \<Rightarrow> [] | Some x \<Rightarrow> [x]) @ updatesOf bs s)"
proof (induction bs arbitrary: s prev)
  case Nil
  then show ?case by (simp split: option.split)
next
  case (Cons a bs)
  obtain t c where a: "a = (t, c)" by (cases a)
  show ?case
  proof (cases "(c = CR \<or> c = LF) \<and> 3 < length (progressRx (lineAcc s))")
    case False
    have "tracked (ProcessChar t c s) prev" by (rule step_quiet [OF Cons.prems False])
    from Cons.IH [OF this] show ?thesis
      by (simp only: a updatesOf.simps if_not_P [OF False] append_Nil)
  next
    case True
    then have tm: "c = CR \<or> c = LF" and m: "3 < length (progressRx (lineAcc s))" by simp_all
    let ?P = "seconds (progressRx (lineAcc s) ! 1) (progressRx (lineAcc s) ! 2)
              (progressRx (lineAcc s) ! 3)"
    from step_update [OF Cons.prems assms tm m, of t]
    obtain b2 where b2: "pbar (ProcessChar t c s) = Some b2"
      "tracked (ProcessChar t c s) (Some (?P, b2))"
      "\<forall>x. prev = Some x \<longrightarrow> steady rnd x (?P, b2)"
      by blast
    from Cons.IH [OF b2(2)]
    have rest: "successively (steady rnd) ((?P, b2) # updatesOf bs (ProcessChar t c s))" by simp
    have up: "updatesOf (a # bs) s = (?P, b2) # updatesOf bs (ProcessChar t c s)"
      using True b2(1) by (simp add: a)
    show ?thesis
    proof (cases prev)
      case None
      with rest up show ?thesis by simp
    next
      case (Some x)
      with b2(3) rest up show ?thesis by simp
    qed
  qed
qed

lemma init_tracked: "tracked (NewColoredProgressNotifier u v) None"
  by (simp add: tracked_def NewColoredProgressNotifier_def)

text \<open>
  Claim C8, amended. On every stream fed to a fresh notifier, any two successive progress
  updates leave the bar with the same total, and whenever the position reported by the
  later line is not below the position reported by the earlier one, the percentage after
  the later update is not below the percentage after the earlier one. The position reaches
  the current value of the bar through the frame factor of \<open>progress\<close> (1 until a frame
  rate is known, the frame rate after), which never goes down either. This holds for every
  monotone rounding of the two float operations.
\<close>

theorem percentage_steady:
  assumes "mono rnd"
  shows "successively (steady rnd) (updatesOf bs (NewColoredProgressNotifier u v))"
  using updates_steady [OF assms init_tracked, of bs u v] by simp

theorem percentage_steady_witness:
  "mono (id :: rat \<Rightarrow> rat)
   \<and> successively (steady id) (updatesOf forwardsRun (NewColoredProgressNotifier False False))
   \<and> updatesOf forwardsRun (NewColoredProgressNotifier False False) = [(30, earlyBar), (45, lateBar)]
   \<and> pb_total earlyBar = 90 \<and> pb_total lateBar = 90
   \<and> percentage id earlyBar = 100 / 3 \<and> percentage id lateBar = 50"
proof -
  have m: "mono (id :: rat \<Rightarrow> rat)" by (simp add: mono_def)
  have p: "pb_total earlyBar = 90 \<and> pb_total lateBar = 90
     \<and> percentage id earlyBar = 100 / 3 \<and> percentage id lateBar = 50"
    by (simp add: percentage_def firstBar_def earlyBar_def lateBar_def)
  from percentage_steady [OF m, of forwardsRun False False] m forwardsRun_updates p
  show ?thesis by (intro conjI) simp_all
qed

subsection \<open>Throttling of the redraws\<close>

lemma renderTimes_simps [simp]:
  "renderTimes [] = []"
  "renderTimes (xs @ ys) = renderTimes xs @ renderTimes ys"
  "renderTimes (Write s # xs) = renderTimes xs"
  "renderTimes (Render t pb # xs) = t # renderTimes xs"
  by (simp_all add: renderTimes_def)

lemma Sub_ge:
  assumes "\<not> Sub now l < 50 * Millisecond"
  shows "50 * Millisecond \<le> now - l"
  using assms
  by (simp add: Sub_def Let_def Millisecond_def minDuration_def maxDuration_def split: if_splits)

lemma Sub_lt:
  "now - l < 50 * Millisecond \<Longrightarrow> Sub now l < 50 * Millisecond"
  by (simp add: Sub_def Let_def Millisecond_def minDuration_def maxDuration_def)

lemma Sub_not_lt:
  "50 * Millisecond \<le> now - l \<Longrightarrow> \<not> Sub now l < 50 * Millisecond"
  by (simp add: Sub_def Let_def Millisecond_def minDuration_def maxDuration_def)

lemma successively_snoc:
  "successively P (xs @ [y]) \<longleftrightarrow> successively P xs \<and> (xs \<noteq> [] \<longrightarrow> P (last xs) y)"
  by (auto simp add: successively_append_iff)

lemma Update_throttled:
  assumes "successively apart ts"
    and "pb_updateDelay pb = 50 * Millisecond"
    and "ts \<noteq> [] \<longrightarrow> last ts = pb_lastUpdate pb"
    and "Update now c pb = (pb', evs)"
  shows "successively apart (ts @ renderTimes evs)
       \<and> pb_updateDelay pb' = 50 * Millisecond
       \<and> (ts @ renderTimes evs \<noteq> [] \<longrightarrow> last (ts @ renderTimes evs) = pb_lastUpdate pb')"
proof (cases "Sub now (pb_lastUpdate pb) < pb_updateDelay pb")
  case True
  with assms show ?thesis by (auto simp add: Update_def Let_def)
next
  case False
  then have far: "50 * Millisecond \<le> now - pb_lastUpdate pb"
    using assms(2) Sub_ge by simp
  from False assms(4) have pb': "pb' = pb\<lparr>pb_current := c, pb_lastUpdate := now\<rparr>"
    and evs: "evs = [Render now pb']"
    by (auto simp add: Update_def Let_def render_def)
  have "successively apart (ts @ [now])"
    using assms(1,3) far by (simp add: successively_snoc apart_def)
  then show ?thesis using assms(2) by (simp add: pb' evs)
qed

lemma throttled_Update:
  assumes "throttled cpn"
  shows "throttled (cpn\<lparr>pbar := Some (fst (Update now c
             (case pbar cpn of None \<Rightarrow> NewProgressBar now d tt u col | Some b \<Rightarrow> b))),
           fileOut := fileOut cpn @ snd (Update now c
             (case pbar cpn of None \<Rightarrow> NewProgressBar now d tt u col | Some b \<Rightarrow> b))\<rparr>)"
proof -
  let ?pb = "case pbar cpn of None \<Rightarrow> NewProgressBar now d tt u col | Some b \<Rightarrow> b"
  let ?ts = "renderTimes (fileOut cpn)"
  have a: "successively apart ?ts" using assms by (simp add: throttled_def)
  have b: "pb_updateDelay ?pb = 50 * Millisecond"
    using assms by (simp add: throttled_def NewProgressBar_def split: option.splits)
  have c: "?ts \<noteq> [] \<longrightarrow> last ?ts = pb_lastUpdate ?pb"
    using assms by (simp add: throttled_def split: option.splits)
  have d: "Update now c ?pb = (fst (Update now c ?pb), snd (Update now c ?pb))" by simp
  from Update_throttled [OF a b c d] show ?thesis
    by (simp add: throttled_def)
qed

lemma progress_throttled:
  assumes "throttled cpn"
  shows "throttled (progress now l cpn)"
proof (cases "3 < length (progressRx l)")
  case False
  then show ?thesis using assms by (simp add: progress_def Let_def)
next
  case True
  then show ?thesis
    by (simp only: progress_def Let_def case_prod_beta if_True throttled_Update [OF assms])
qed

lemma ProcessChar_throttled:
  assumes "throttled cpn"
  shows "throttled (ProcessChar now c cpn)"
proof (cases "c = CR \<or> c = LF")
  case True
  have "throttled cpn'" if "pbar cpn' = pbar cpn" "fileOut cpn' = fileOut cpn" for cpn'
    using assms that by (simp add: throttled_def split: option.splits)
  then show ?thesis
    using True
    by (simp add: ProcessChar_def newline_def Let_def progress_throttled)
next
  case False
  have keep: "throttled cpn'" if "pbar cpn' = pbar cpn"
      "renderTimes (fileOut cpn') = renderTimes (fileOut cpn)" for cpn'
    using assms that by (simp add: throttled_def split: option.splits)
  from False show ?thesis
    by (simp add: ProcessChar_def newline_def Let_def keep split: option.split)
qed

lemma feed_throttled: "throttled cpn \<Longrightarrow> throttled (feed bs cpn)"
  unfolding feed_def
  by (induction bs arbitrary: cpn) (auto simp add: ProcessChar_throttled)

lemma init_throttled: "throttled (NewColoredProgressNotifier u v)"
  by (simp add: throttled_def NewColoredProgressNotifier_def)

text \<open>
  Claim C5. For a bar with the delay of 50 milliseconds that its constructor sets: an
  update whose clock reading is less than 50 milliseconds after the last redraw stores
  the new current value and writes nothing; an update at least 50 milliseconds after it
  stores the value, redraws and remembers its reading; \<open>Finish\<close> sets the current value
  to the total and redraws whatever the clock says. And in any run of the reading loop
  from the initial notifier, each redraw is at least 50 milliseconds after the one before
  it.
\<close>

theorem render_throttling:
  assumes "pb_updateDelay pb = 50 * Millisecond"
  shows "(now - pb_lastUpdate pb < 50 * Millisecond \<longrightarrow>
            Update now c pb = (pb\<lparr>pb_current := c\<rparr>, []))
       \<and> (50 * Millisecond \<le> now - pb_lastUpdate pb \<longrightarrow>
            Update now c pb =
              (pb\<lparr>pb_current := c, pb_lastUpdate := now\<rparr>,
               [Render now (pb\<lparr>pb_current := c, pb_lastUpdate := now\<rparr>)]))
       \<and> Finish now pb =
            (pb\<lparr>pb_current := pb_total pb\<rparr>,
             [Render now (pb\<lparr>pb_current := pb_total pb\<rparr>), Write [LF]])
       \<and> successively apart (renderTimes (fileOut (feed bs (NewColoredProgressNotifier u v))))"
proof -
  have a: "now - pb_lastUpdate pb < 50 * Millisecond \<longrightarrow> Update now c pb = (pb\<lparr>pb_current := c\<rparr>, [])"
    using assms Sub_lt [of now "pb_lastUpdate pb"] by (simp add: Update_def Let_def)
  have b: "50 * Millisecond \<le> now - pb_lastUpdate pb \<longrightarrow>
            Update now c pb =
              (pb\<lparr>pb_current := c, pb_lastUpdate := now\<rparr>,
               [Render now (pb\<lparr>pb_current := c, pb_lastUpdate := now\<rparr>)])"
    using assms Sub_not_lt [of now "pb_lastUpdate pb"] by (simp add: Update_def Let_def render_def)
  have c: "Finish now pb =
            (pb\<lparr>pb_current := pb_total pb\<rparr>,
             [Render now (pb\<lparr>pb_current := pb_total pb\<rparr>), Write [LF]])"
    by (simp add: Finish_def Let_def render_def)
  have d: "successively apart (renderTimes (fileOut (feed bs (NewColoredProgressNotifier u v))))"
    using feed_throttled [OF init_throttled] by (simp add: throttled_def)
  from a b c d show ?thesis by simp
qed

theorem render_throttling_witness:
  "pb_updateDelay firstBar = 50 * Millisecond
   \<and> 2049999999 - pb_lastUpdate firstBar < 50 * Millisecond
   \<and> Update 2049999999 46 firstBar = (firstBar\<lparr>pb_current := 46\<rparr>, [])
   \<and> 50 * Millisecond \<le> 2050000000 - pb_lastUpdate firstBar
   \<and> renderTimes (snd (Update 2050000000 46 firstBar)) = [2050000000]
   \<and> pb_current (fst (Finish 2000000001 firstBar)) = 90
   \<and> renderTimes (snd (Finish 2000000001 firstBar)) = [2000000001]
   \<and> successively apart [2000000000, 3000000000]"
proof -
  have h: "pb_updateDelay firstBar = 50 * Millisecond"
    by (simp add: firstBar_def Millisecond_def)
  have l: "pb_lastUpdate firstBar = 2000000000" "pb_total firstBar = 90"
    by (simp_all add: firstBar_def)
  from render_throttling [OF h, of 2049999999 46 backwardsRun False False]
  have a: "Update 2049999999 46 firstBar = (firstBar\<lparr>pb_current := 46\<rparr>, [])
         \<and> successively apart [2000000000, 3000000000]"
    by (simp add: l Millisecond_def backwardsRun_output)
  from render_throttling [OF h, of 2050000000 46 backwardsRun False False]
  have b: "renderTimes (snd (Update 2050000000 46 firstBar)) = [2050000000]"
    by (simp add: l Millisecond_def)
  from render_throttling [OF h, of 2000000001 46 backwardsRun False False]
  have c: "pb_current (fst (Finish 2000000001 firstBar)) = 90
         \<and> renderTimes (snd (Finish 2000000001 firstBar)) = [2000000001]"
    by (simp add: l)
  from h l a b c show ?thesis by (simp add: Millisecond_def)
qed

subsection \<open>Stripping twice is stripping once\<close>

lemma byte_space: "byte CHR '' '' < 128"
  by (simp add: byte_def)

lemma replaceNonASCII_ascii: "c \<in> set (replaceNonASCII s) \<Longrightarrow> byte c < 128"
proof (induction s rule: replaceNonASCII.induct)
  case 1
  then show ?case by simp
next
  case (2 d ds)
  show ?case
  proof (cases "byte d < 128")
    case True
    with 2 show ?thesis by auto
  next
    case False
    with 2 byte_space show ?thesis by auto
  qed
qed

lemma ascii_fixed: "(\<forall>c \<in> set s. byte c < 128) \<Longrightarrow> replaceNonASCII s = s"
  by (induction s) simp_all

lemma ansiAt_not_ESC: "ESC \<noteq> c \<Longrightarrow> ansiAt (c # cs) = None"
  by (auto simp add: ansiAt_def split: list.split)

lemma removeANSI_plain: "ESC \<notin> set s \<Longrightarrow> removeANSI s = s"
  by (induction s) (simp_all add: ansiAt_not_ESC)

lemma removeANSI_plain_prefix: "ESC \<notin> set p \<Longrightarrow> removeANSI (p @ s) = p @ removeANSI s"
  by (induction p) (simp_all add: ansiAt_not_ESC)

lemma replaceNonASCII_subset: "set (replaceNonASCII s) \<subseteq> insert CHR '' '' (set s)"
proof (induction s rule: replaceNonASCII.induct)
  case 1
  show ?case by simp
next
  case (2 c cs)
  have d: "set (drop n cs) \<subseteq> set cs" for n by (rule set_drop_subset)
  show ?case
  proof (cases "byte c < 128")
    case True
    with 2 show ?thesis by auto
  next
    case False
    with 2 d [of "runeWidth (c # cs) - 1"] show ?thesis by auto
  qed
qed

lemma space_not_ESC: "ESC \<noteq> CHR '' ''"
  by (simp add: ESC_def)

lemma replaceNonASCII_no_ESC: "ESC \<notin> set s \<Longrightarrow> ESC \<notin> set (replaceNonASCII s)"
  using replaceNonASCII_subset [of s] space_not_ESC by blast

lemma stripANSI_idem_if:
  assumes "ESC \<notin> set (removeANSI s)"
  shows "stripANSI (stripANSI s) = stripANSI s"
proof -
  let ?r = "replaceNonASCII (removeANSI s)"
  have "ESC \<notin> set ?r" using assms by (rule replaceNonASCII_no_ESC)
  then have "removeANSI ?r = ?r" by (rule removeANSI_plain)
  moreover have "replaceNonASCII ?r = ?r"
    by (rule ascii_fixed) (simp add: replaceNonASCII_ascii)
  ultimately show ?thesis by (simp add: stripANSI_def)
qed

lemma removeANSI_codes:
  "removeANSI (Yellow NewColors @ s) = removeANSI s"
  "removeANSI (Reset NewColors @ s) = removeANSI s"
  "removeANSI (Red NewColors @ s) = removeANSI s"
  "removeANSI (Blue NewColors @ s) = removeANSI s"
  by (simp_all add: NewColors_def ansiAt_def isParam_def isDigit_def isFinal_def ESC_def)

lemma removeANSI_Reset_end: "removeANSI (Reset NewColors) = []"
  using removeANSI_codes(2) [of "[]"] by simp

lemma removeANSI_coloured:
  assumes "ESC \<notin> set a" "ESC \<notin> set b" "ESC \<notin> set c" "ESC \<notin> set d" "ESC \<notin> set e"
    "ESC \<notin> set f"
  shows "removeANSI (a @ Yellow NewColors @ b @ Reset NewColors @ c @ Red NewColors @ d
            @ Reset NewColors @ e @ Blue NewColors @ f @ Reset NewColors)
         = a @ b @ c @ d @ e @ f"
  by (simp only: removeANSI_plain_prefix [OF assms(1)] removeANSI_plain_prefix [OF assms(2)]
      removeANSI_plain_prefix [OF assms(3)] removeANSI_plain_prefix [OF assms(4)]
      removeANSI_plain_prefix [OF assms(5)] removeANSI_plain_prefix [OF assms(6)]
      removeANSI_codes removeANSI_Reset_end append_Nil2)

lemma digit_char_not_ESC:
  assumes "(k::nat) < 10"
  shows "ESC \<noteq> char_of (48 + k)"
proof
  assume "ESC = char_of (48 + k)"
  then have "(of_char ESC :: nat) = of_char (char_of (48 + k) :: char)" by simp
  then have "(27 :: nat) = (48 + k) mod 256" by (simp add: ESC_def)
  with assms show False by simp
qed

lemma digitsNat_no_ESC: "ESC \<notin> set (digitsNat n)"
proof (induction n rule: digitsNat.induct)
  case (1 n)
  show ?case
  proof (cases "n < 10")
    case True
    then show ?thesis by (simp add: digitsNat.simps [of n] digit_char_not_ESC)
  next
    case False
    with 1 show ?thesis by (simp add: digitsNat.simps [of n] digit_char_not_ESC)
  qed
qed

lemma plain_chars_not_ESC:
  "ESC \<noteq> CHR ''-''" "ESC \<noteq> CHR ''0''" "ESC \<noteq> CHR '':''"
  "ESC \<notin> set ''00:00''" "ESC \<notin> set ''0123456789.+-InfNa''"
  by (simp_all add: ESC_def)

lemma formatInt_no_ESC: "ESC \<notin> set (formatInt i)"
  by (simp add: formatInt_def digitsNat_no_ESC plain_chars_not_ESC)

lemma formatInt02_no_ESC: "ESC \<notin> set (formatInt02 i)"
  by (simp add: formatInt02_def Let_def formatInt_no_ESC plain_chars_not_ESC)

lemma formatDurationSimple_no_ESC: "ESC \<notin> set (formatDurationSimple d)"
  by (simp add: formatDurationSimple_def Let_def formatInt02_no_ESC plain_chars_not_ESC)

lemma floatText_no_ESC:
  assumes "floatText s"
  shows "ESC \<notin> set s"
  using assms plain_chars_not_ESC(5) unfolding floatText_def list_all_iff by blast

lemma rightInfo_clean:
  assumes "floatText pct" and "floatText rate"
    and "pb_colors pb = (if pb_useColors pb then Some NewColors else None)"
  shows "ESC \<notin> set (removeANSI (rightInfo pb pct rate remaining))"
proof -
  note clean = formatInt_no_ESC [unfolded ESC_def] formatDurationSimple_no_ESC [unfolded ESC_def]
    floatText_no_ESC [OF assms(1), unfolded ESC_def] floatText_no_ESC [OF assms(2), unfolded ESC_def]
  show ?thesis
  proof (cases "pb_useColors pb")
    case False
    then have "ESC \<notin> set (rightInfo pb pct rate remaining)"
      by (simp add: rightInfo_def ESC_def bullet_def clean)
    then show ?thesis by (simp add: removeANSI_plain)
  next
    case True
    let ?a = "'' ''"
    let ?b = "pct @ ''%''"
    let ?c = "'' '' @ bullet @ '' '' @ formatInt (pb_current pb) @ ''/'' @ formatInt (pb_total pb)
               @ '' '' @ bullet @ '' ''"
    let ?d = "rate @ ''fps''"
    let ?e = "'' '' @ bullet @ '' ETA ''"
    let ?f = "formatDurationSimple remaining"
    have shape: "rightInfo pb pct rate remaining =
        ?a @ Yellow NewColors @ ?b @ Reset NewColors @ ?c @ Red NewColors @ ?d
          @ Reset NewColors @ ?e @ Blue NewColors @ ?f @ Reset NewColors"
      using True assms(3) by (simp add: rightInfo_def)
    have a: "ESC \<notin> set ?a" by (simp add: ESC_def)
    have b: "ESC \<notin> set ?b" by (simp add: ESC_def clean)
    have c: "ESC \<notin> set ?c" by (simp add: ESC_def bullet_def clean)
    have d: "ESC \<notin> set ?d" by (simp add: ESC_def clean)
    have e: "ESC \<notin> set ?e" by (simp add: ESC_def bullet_def)
    have f: "ESC \<notin> set ?f" by (rule formatDurationSimple_no_ESC)
    have "removeANSI (rightInfo pb pct rate remaining) = ?a @ ?b @ ?c @ ?d @ ?e @ ?f"
      unfolding shape by (rule removeANSI_coloured [OF a b c d e f])
    moreover have "ESC \<notin> set (?a @ ?b @ ?c @ ?d @ ?e @ ?f)"
      using a b c d e f by (simp only: set_append Un_iff) blast
    ultimately show ?thesis by simp
  qed
qed

text \<open>
  Claim C6. On the trailing information of a redraw, with or without colours, for any
  texts of the two formatted floats and any remaining duration, \<open>stripANSI\<close> applied
  twice gives what it gives applied once. The bar carries the colour codes of its
  constructor.
\<close>

theorem strip_idempotent:
  assumes "floatText pct" and "floatText rate"
    and "pb_colors pb = (if pb_useColors pb then Some NewColors else None)"
  shows "stripANSI (stripANSI (rightInfo pb pct rate remaining))
         = stripANSI (rightInfo pb pct rate remaining)"
  by (rule stripANSI_idem_if) (rule rightInfo_clean [OF assms])

theorem strip_idempotent_witness:
  "floatText ''50.0'' \<and> floatText ''131''
   \<and> pb_colors shownBar = (if pb_useColors shownBar then Some NewColors else None)
   \<and> pb_useColors shownBar
   \<and> stripANSI (stripANSI (rightInfo shownBar ''50.0'' ''131'' 10000000000))
       = stripANSI (rightInfo shownBar ''50.0'' ''131'' 10000000000)"
proof -
  have a: "floatText ''50.0''" "floatText ''131''" by (simp_all add: floatText_def)
  have b: "pb_colors shownBar = (if pb_useColors shownBar then Some NewColors else None)"
    "pb_useColors shownBar"
    by (simp_all add: shownBar_def NewProgressBar_def)
  from strip_idempotent [OF a b(1), of 10000000000] a b show ?thesis by simp
qed

end
